theory Spec2Isabelle
  imports Main "HOL-Library.AList"
begin

section \<open>Values, rows and errors\<close>

text \<open>
  The values a database row can hold, as the code distinguishes them: \<open>None\<close>, \<open>str\<close>,
  \<open>dict\<close> and every other scalar. Numbers are integers here (a \<open>float\<close> has no exact
  counterpart in HOL and no claim depends on one). A string is a list of characters; each
  \<open>char\<close> stands for the code point of the same number.
\<close>

datatype pyval =
    PNone
  | PStr string
  | PInt int
  | PBool bool
  | PDict "(string \<times> pyval) list"

text \<open>
  A fetched row (\<open>psycopg2.extras.DictRow\<close>) is a list of values addressed by column name:
  iterating it gives the values in column order, \<open>row.get(name)\<close> gives \<open>None\<close> for an
  unknown name, \<open>row[name]\<close> raises \<open>KeyError\<close> for one.
\<close>

type_synonym row = "(string \<times> pyval) list"

datatype driver_exc = BadCopyFileFormat | InvalidTextRepresentation | OtherDriverError

datatype error =
    ZeroDivisionError
  | OverflowError
  | KeyError string
  | TypeError
  | ReError string
  | ProviderError
  | BadDataFormat driver_exc
  | DriverError driver_exc

text \<open>Python's truth value of an object: what \<open>if not orig_value\<close> tests.\<close>

fun truthy :: "pyval \<Rightarrow> bool" where
  "truthy PNone = False"
| "truthy (PStr s) = (s \<noteq> [])"
| "truthy (PInt i) = (i \<noteq> 0)"
| "truthy (PBool b) = b"
| "truthy (PDict d) = (d \<noteq> [])"

definition row_get :: "row \<Rightarrow> string \<Rightarrow> pyval" where
  "row_get row k = (case map_of row k of None \<Rightarrow> PNone | Some v \<Rightarrow> v)"

definition row_getitem :: "row \<Rightarrow> string \<Rightarrow> error + pyval" where
  "row_getitem row k = (case map_of row k of None \<Rightarrow> Inl (KeyError k) | Some v \<Rightarrow> Inr v)"

definition row_setitem :: "string \<Rightarrow> pyval \<Rightarrow> row \<Rightarrow> error + row" where
  "row_setitem k v row =
     (if k \<in> fst ` set row then Inr (AList.update k v row) else Inl (KeyError k))"

section \<open>Text helpers\<close>

definition BACKSLASH :: char where "BACKSLASH = CHR 0x5C"
definition NEWLINE :: char where "NEWLINE = CHR 0x0A"
definition CR :: char where "CR = CHR 0x0D"
definition TAB :: char where "TAB = CHR 0x09"

text \<open>\<open>sep.join(xs)\<close>.\<close>

fun join :: "string \<Rightarrow> string list \<Rightarrow> string" where
  "join sep [] = []"
| "join sep [x] = x"
| "join sep (x # y # ys) = x @ sep @ join sep (y # ys)"

text \<open>\<open>text.replace(c, s)\<close> for a pattern \<open>c\<close> of one character.\<close>

definition replace :: "char \<Rightarrow> string \<Rightarrow> string \<Rightarrow> string" where
  "replace c s text = concat (map (\<lambda>x. if x = c then s else [x]) text)"

text \<open>
  \<open>str.isspace\<close> on the code points below 256, and \<open>str.strip()\<close> with no argument.
\<close>

definition py_isspace :: "char \<Rightarrow> bool" where
  "py_isspace c =
     (let n = (of_char c :: nat)
      in (9 \<le> n \<and> n \<le> 13) \<or> (28 \<le> n \<and> n \<le> 32) \<or> n = 133 \<or> n = 160)"

definition strip :: "string \<Rightarrow> string" where
  "strip s = rev (dropWhile py_isspace (rev (dropWhile py_isspace s)))"

text \<open>\<open>str(x)\<close> for the scalars that are neither \<open>None\<close>, \<open>str\<close> nor \<open>dict\<close>.\<close>

definition digit_char :: "nat \<Rightarrow> char" where
  "digit_char n = ''0123456789'' ! n"

function show_nat :: "nat \<Rightarrow> string" where
  "show_nat n = (if n < 10 then [digit_char n] else show_nat (n div 10) @ [digit_char (n mod 10)])"
  by pat_completeness auto
termination
  by (relation "measure id") auto

declare show_nat.simps [simp del]

definition show_int :: "int \<Rightarrow> string" where
  "show_int i = (if i < 0 then ''-'' @ show_nat (nat (- i)) else show_nat (nat i))"

section \<open>The bulk encoder\<close>

text \<open>
  \<^verbatim>\<open>
  def escape_str_replace(text):
      return text.replace('\\', '\\\\').replace('\n', '\\n').replace('\r', '\\r').replace('\t', '\\t')
  \<close>
\<close>

definition escape_str_replace :: "string \<Rightarrow> string" where
  "escape_str_replace text =
     replace TAB [BACKSLASH, CHR ''t'']
       (replace CR [BACKSLASH, CHR ''r'']
         (replace NEWLINE [BACKSLASH, CHR ''n'']
           (replace BACKSLASH [BACKSLASH, BACKSLASH] text)))"

text \<open>
  \<open>csv.writer(buf, delimiter=d, lineterminator='\n', quotechar='~')\<close>: the other dialect
  settings keep their defaults (\<open>QUOTE_MINIMAL\<close>, \<open>doublequote=True\<close>, no escape
  character). A field is quoted when it holds the delimiter, the quote character or a
  character of the line terminator; inside a quoted field the quote character is doubled.
  A row that would otherwise be written as the empty record (a single empty field) is
  written as an empty quoted field.
\<close>

definition QUOTECHAR :: char where "QUOTECHAR = CHR ''~''"
definition LINETERMINATOR :: string where "LINETERMINATOR = [NEWLINE]"

definition csv_needs_quote :: "char \<Rightarrow> string \<Rightarrow> bool" where
  "csv_needs_quote d field =
     (\<exists>c \<in> set field. c = d \<or> c = QUOTECHAR \<or> c \<in> set LINETERMINATOR)"

definition csv_field :: "char \<Rightarrow> string \<Rightarrow> string" where
  "csv_field d field =
     (if csv_needs_quote d field
      then [QUOTECHAR] @ replace QUOTECHAR [QUOTECHAR, QUOTECHAR] field @ [QUOTECHAR]
      else field)"

definition writerow :: "char \<Rightarrow> string list \<Rightarrow> string" where
  "writerow d fields =
     (if fields = [[]] then [QUOTECHAR, QUOTECHAR] @ LINETERMINATOR
      else join [d] (map (csv_field d) fields) @ LINETERMINATOR)"

text \<open>
  What the code does not contain and takes from its collaborators: the constants of
  \<open>pganonymizer.constants\<close>, \<open>json.dumps\<close>, the regular-expression engine
  (\<open>re.compile(p, re.IGNORECASE)\<close>, which raises for an invalid pattern, and
  \<open>pattern.match\<close>, which matches at the start of the text), the provider registry
  (\<open>get_provider(config).alter_value(v)\<close>) and the verdict of the server on a bulk load
  (the exception \<open>cursor.copy_from\<close> raises, if any). The last field is what the
  double-precision arithmetic of \<open>int(math.ceil((1.0 * total_count) / (1.0 * chunk_size)))\<close>
  gives, a number or an exception, when one of the two integers is \<open>2^53\<close> or more: there
  the conversion to a double rounds or overflows, and the arithmetic is not modelled.
\<close>

record ('p, 'rx) env =
  COPY_DB_DELIMITER :: char
  DEFAULT_PRIMARY_KEY :: string
  json_dumps :: "(string \<times> pyval) list \<Rightarrow> string"
  re_compile :: "string \<Rightarrow> error + 'rx"
  re_match :: "'rx \<Rightarrow> string \<Rightarrow> bool"
  alter_value :: "'p \<Rightarrow> pyval \<Rightarrow> error + pyval"
  cursor_copy_from :: "string \<Rightarrow> string \<Rightarrow> driver_exc option"
  float_batches :: "nat \<Rightarrow> nat \<Rightarrow> error + nat"

text \<open>
  \<^verbatim>\<open>
  if x is None:            val = '\\N'
  elif type(x) == str:     val = escape_str_replace(x.strip())
  elif type(x) == dict:    val = escape_str_replace(json.dumps(x))
  else:                    val = x
  \<close>
  The writer turns a value that is not a string into \<open>str(val)\<close>.
\<close>

fun csv_value :: "('p, 'rx) env \<Rightarrow> pyval \<Rightarrow> string" where
  "csv_value E PNone = [BACKSLASH, CHR ''N'']"
| "csv_value E (PStr s) = escape_str_replace (strip s)"
| "csv_value E (PDict d) = escape_str_replace (json_dumps E d)"
| "csv_value E (PInt i) = show_int i"
| "csv_value E (PBool b) = (if b then ''True'' else ''False'')"

definition data2csv :: "('p, 'rx) env \<Rightarrow> row list \<Rightarrow> string" where
  "data2csv E data =
     concat (map (\<lambda>row. writerow (COPY_DB_DELIMITER E) (map (\<lambda>(k, x). csv_value E x) row)) data)"

section \<open>Table definitions\<close>

text \<open>
  A column rule is the YAML entry \<open>{name: {'provider': config, 'append': suffix}}\<close>, an
  exclude rule the entry \<open>{name: [pattern, ...]}\<close>. The suffix is a text literal when
  present; \<open>.get('append')\<close> gives \<open>None\<close> when it is absent.
\<close>

datatype 'p column_definition =
  ColumnDefinition (column_name: string) (provider_config: 'p) (append: "string option")

datatype exclude_definition =
  ExcludeDefinition (exclude_column: string) (exclude_patterns: "string list")

text \<open>
  \<^verbatim>\<open>
  def get_column_names(definitions):
      return [list(definition.keys())[0] for definition in definitions]
  \<close>
\<close>

definition get_column_names :: "'p column_definition list \<Rightarrow> string list" where
  "get_column_names definitions = map column_name definitions"

section \<open>Exclude filter\<close>

text \<open>
  \<^verbatim>\<open>
  for exclude in definition.get(column, []):
      pattern = re.compile(exclude, re.IGNORECASE)
      if row[column] is not None and pattern.match(row[column]):
          return True
  \<close>
  The pattern is compiled before the row is looked at; \<open>row[column]\<close> raises \<open>KeyError\<close>
  for a column the row does not have, and \<open>pattern.match\<close> raises \<open>TypeError\<close> for a
  value that is not text. The result \<open>Inr True\<close> is the early \<open>return True\<close>.
\<close>

fun match_patterns :: "('p, 'rx) env \<Rightarrow> row \<Rightarrow> string \<Rightarrow> string list \<Rightarrow> error + bool" where
  "match_patterns E row column [] = Inr False"
| "match_patterns E row column (exclude # rest) =
     (case re_compile E exclude of
        Inl e \<Rightarrow> Inl e
      | Inr pattern \<Rightarrow>
          (case row_getitem row column of
             Inl e \<Rightarrow> Inl e
           | Inr PNone \<Rightarrow> match_patterns E row column rest
           | Inr (PStr s) \<Rightarrow>
               (if re_match E pattern s then Inr True else match_patterns E row column rest)
           | Inr _ \<Rightarrow> Inl TypeError))"

text \<open>
  \<^verbatim>\<open>
  def row_matches_excludes(row, excludes=None):
      excludes = excludes if excludes else []
      for definition in excludes:
          column = list(definition.keys())[0]
          for exclude in definition.get(column, []): ...
      return False
  \<close>
\<close>

fun row_matches_excludes :: "('p, 'rx) env \<Rightarrow> row \<Rightarrow> exclude_definition list \<Rightarrow> error + bool" where
  "row_matches_excludes E row [] = Inr False"
| "row_matches_excludes E row (definition # rest) =
     (case match_patterns E row (exclude_column definition) (exclude_patterns definition) of
        Inl e \<Rightarrow> Inl e
      | Inr True \<Rightarrow> Inr True
      | Inr False \<Rightarrow> row_matches_excludes E row rest)"

section \<open>Row transformer\<close>

text \<open>\<open>value + append\<close> with a text suffix: concatenation for text, \<open>TypeError\<close> otherwise.\<close>

fun py_add :: "pyval \<Rightarrow> string \<Rightarrow> error + pyval" where
  "py_add (PStr s) a = Inr (PStr (s @ a))"
| "py_add _ a = Inl TypeError"

text \<open>
  \<^verbatim>\<open>
  column_dict = {}
  for definition in columns:
      column_name = list(definition.keys())[0]
      column_definition = definition[column_name]
      provider_config = column_definition.get('provider')
      orig_value = row.get(column_name)
      if not orig_value:
          # Skip the current column if there is no value to be altered
          continue
      provider = get_provider(provider_config)
      value = provider.alter_value(orig_value)
      append = column_definition.get('append')
      if append:
          value = value + append
      column_dict[column_name] = value
  return column_dict
  \<close>
  The loop carries \<open>column_dict\<close> and, beside it, the provider invocations made so far
  (column, provider configuration, argument), so that "the provider is not invoked" can be
  stated. A Python \<open>dict\<close> keeps the position of a key that is assigned again, as
  \<open>AList.update\<close> does.
\<close>

type_synonym 'p provider_call = "string \<times> 'p \<times> pyval"

fun get_column_values_loop ::
  "('p, 'rx) env \<Rightarrow> row \<Rightarrow> 'p column_definition list \<Rightarrow>
   'p provider_call list \<times> (string \<times> pyval) list \<Rightarrow>
   error + 'p provider_call list \<times> (string \<times> pyval) list" where
  "get_column_values_loop E row [] acc = Inr acc"
| "get_column_values_loop E row (definition # rest) (calls, column_dict) =
     (let orig_value = row_get row (column_name definition) in
      if \<not> truthy orig_value then get_column_values_loop E row rest (calls, column_dict)
      else
        (case alter_value E (provider_config definition) orig_value of
           Inl e \<Rightarrow> Inl e
         | Inr value \<Rightarrow>
             (case (case append definition of
                      None \<Rightarrow> Inr value
                    | Some a \<Rightarrow> if a \<noteq> [] then py_add value a else Inr value) of
                Inl e \<Rightarrow> Inl e
              | Inr value' \<Rightarrow>
                  get_column_values_loop E row rest
                    (calls @ [(column_name definition, provider_config definition, orig_value)],
                     AList.update (column_name definition) value' column_dict))))"

definition get_column_values_traced ::
  "('p, 'rx) env \<Rightarrow> row \<Rightarrow> 'p column_definition list \<Rightarrow>
   error + 'p provider_call list \<times> (string \<times> pyval) list" where
  "get_column_values_traced E row columns = get_column_values_loop E row columns ([], [])"

definition get_column_values ::
  "('p, 'rx) env \<Rightarrow> row \<Rightarrow> 'p column_definition list \<Rightarrow> error + (string \<times> pyval) list" where
  "get_column_values E row columns = map_sum id snd (get_column_values_traced E row columns)"

text \<open>
  \<^verbatim>\<open>
  def process_row(row, columns, excludes):
      if row_matches_excludes(row, excludes):
          return None
      else:
          row_column_dict = get_column_values(row, columns)
          for key, value in row_column_dict.items():
              row[key] = value
          return row
  \<close>
\<close>

fun set_items :: "(string \<times> pyval) list \<Rightarrow> row \<Rightarrow> error + row" where
  "set_items [] row = Inr row"
| "set_items ((key, value) # rest) row =
     (case row_setitem key value row of Inl e \<Rightarrow> Inl e | Inr row' \<Rightarrow> set_items rest row')"

definition process_row ::
  "('p, 'rx) env \<Rightarrow> row \<Rightarrow> 'p column_definition list \<Rightarrow> exclude_definition list \<Rightarrow>
   error + row option" where
  "process_row E row columns excludes =
     (case row_matches_excludes E row excludes of
        Inl e \<Rightarrow> Inl e
      | Inr True \<Rightarrow> Inr None
      | Inr False \<Rightarrow>
          (case get_column_values E row columns of
             Inl e \<Rightarrow> Inl e
           | Inr row_column_dict \<Rightarrow> map_sum id Some (set_items row_column_dict row)))"

section \<open>The connection\<close>

text \<open>
  What the pipeline does to the connection: the SQL statements it executes and the bulk
  loads it makes, in order, and the rows the server-side cursor has still to deliver
  (the result of the \<open>SELECT\<close>). \<open>fetchmany(size)\<close> delivers the next \<open>size\<close> rows, fewer
  at the end and none after it. Statements and fetches are taken to succeed; the bulk load
  is the one database call whose failure the code handles.
\<close>

datatype event = Execute string | CopyFrom string string

record conn =
  cursor_rows :: "row list"
  log :: "event list"

definition execute :: "string \<Rightarrow> conn \<Rightarrow> conn" where
  "execute sql c = c\<lparr>log := log c @ [Execute sql]\<rparr>"

definition fetchmany :: "nat \<Rightarrow> conn \<Rightarrow> row list \<times> conn" where
  "fetchmany n c = (take n (cursor_rows c), c\<lparr>cursor_rows := drop n (cursor_rows c)\<rparr>)"

section \<open>Staging loader\<close>

text \<open>
  \<^verbatim>\<open>
  new_data = data2csv(data)
  cursor = connection.cursor()
  try:
      cursor.copy_from(new_data, table, sep=COPY_DB_DELIMITER, null='\\N')
  except (BadCopyFileFormat, InvalidTextRepresentation) as exc:
      raise BadDataFormat(exc)
  finally:
      new_data.close()
      cursor.close()
  \<close>
\<close>

definition copy_from :: "('p, 'rx) env \<Rightarrow> conn \<Rightarrow> row list \<Rightarrow> string \<Rightarrow> error + conn" where
  "copy_from E c data table =
     (let new_data = data2csv E data in
      case cursor_copy_from E table new_data of
        None \<Rightarrow> Inr (c\<lparr>log := log c @ [CopyFrom table new_data]\<rparr>)
      | Some exc \<Rightarrow>
          if exc = BadCopyFileFormat \<or> exc = InvalidTextRepresentation
          then Inl (BadDataFormat exc)
          else Inl (DriverError exc))"

definition import_data :: "('p, 'rx) env \<Rightarrow> conn \<Rightarrow> string \<Rightarrow> row list \<Rightarrow> error + conn" where
  "import_data E c table_name data = copy_from E c data table_name"

text \<open>\<open>'"{}"'.format(name)\<close>.\<close>

definition quoted :: "string \<Rightarrow> string" where
  \<open>quoted name = ''"'' @ name @ ''"''\<close>

text \<open>
  \<^verbatim>\<open>
  primary_key = primary_key if primary_key else DEFAULT_PRIMARY_KEY
  column_names = get_column_names(definitions)
  sql_columns = ', '.join(['"{}"'.format(column_name) for column_name in [primary_key] + column_names])
  ctas_query = """CREATE TEMP TABLE "{temp_table}" AS SELECT {columns}
                      FROM "{source_table}" WITH NO DATA"""
  \<close>
\<close>

definition ctas_query :: "('p, 'rx) env \<Rightarrow> 'p column_definition list \<Rightarrow> string \<Rightarrow> string \<Rightarrow> string \<Rightarrow> string" where
  \<open>ctas_query E definitions source_table temp_table primary_key =
     (let primary_key = (if primary_key \<noteq> [] then primary_key else DEFAULT_PRIMARY_KEY E);
          column_names = get_column_names definitions;
          sql_columns = join '', '' (map quoted (primary_key # column_names))
      in ''CREATE TEMP TABLE "'' @ temp_table @ ''" AS SELECT '' @ sql_columns
           @ [NEWLINE] @ replicate 20 (CHR '' '')
           @ ''FROM "'' @ source_table @ ''" WITH NO DATA'')\<close>

definition create_temporary_table ::
  "('p, 'rx) env \<Rightarrow> conn \<Rightarrow> 'p column_definition list \<Rightarrow> string \<Rightarrow> string \<Rightarrow> string \<Rightarrow> conn" where
  "create_temporary_table E c definitions source_table temp_table primary_key =
     execute (ctas_query E definitions source_table temp_table primary_key) c"

section \<open>Merge-back\<close>

text \<open>
  \<^verbatim>\<open>
  create_index_sql = 'CREATE INDEX ON "{temp_table}" ("{primary_key}")'
  cursor.execute(create_index_sql.format(temp_table=temp_table, primary_key=primary_key))
  column_names = ['"{}"'.format(list(definition.keys())[0]) for definition in definitions]
  set_columns = ', '.join(['{column} = s.{column}'.format(column=column) for column in column_names])
  sql = ('UPDATE "{table}" t ' 'SET {columns} ' 'FROM "{source}" s '
         'WHERE t."{primary_key}" = s."{primary_key}";')
  cursor.execute(sql)
  \<close>
\<close>

definition apply_anonymized_data ::
  "conn \<Rightarrow> string \<Rightarrow> string \<Rightarrow> string \<Rightarrow> 'p column_definition list \<Rightarrow> conn" where
  \<open>apply_anonymized_data c temp_table source_table primary_key definitions =
     (let c1 = execute (''CREATE INDEX ON "'' @ temp_table @ ''" ("'' @ primary_key @ ''")'') c;
          column_names = map (\<lambda>definition. quoted (column_name definition)) definitions;
          set_columns = join '', '' (map (\<lambda>column. column @ '' = s.'' @ column) column_names);
          sql = ''UPDATE "'' @ source_table @ ''" t ''
                @ ''SET '' @ set_columns @ '' ''
                @ ''FROM "'' @ temp_table @ ''" s ''
                @ ''WHERE t."'' @ primary_key @ ''" = s."'' @ primary_key @ ''";''
      in execute sql c1)\<close>

section \<open>Chunked reader and table pipeline\<close>

text \<open>
  \<open>parmap.map(process_row, records, columns, excludes)\<close>: the results in the order of the
  records; the first record whose processing raises decides the exception.
\<close>

fun parmap_map ::
  "('p, 'rx) env \<Rightarrow> row list \<Rightarrow> 'p column_definition list \<Rightarrow> exclude_definition list \<Rightarrow>
   error + row option list" where
  "parmap_map E [] columns excludes = Inr []"
| "parmap_map E (r # rs) columns excludes =
     (case process_row E r columns excludes of
        Inl e \<Rightarrow> Inl e
      | Inr x \<Rightarrow>
          (case parmap_map E rs columns excludes of
             Inl e \<Rightarrow> Inl e
           | Inr xs \<Rightarrow> Inr (x # xs)))"

text \<open>\<open>filter(None, data)\<close> keeps the results that are true: a row that is not empty.\<close>

definition filter_None :: "row option list \<Rightarrow> row list" where
  "filter_None data = concat (map (\<lambda>x. case x of None \<Rightarrow> [] | Some r \<Rightarrow> if r = [] then [] else [r]) data)"

text \<open>
  \<^verbatim>\<open>
  batches = int(math.ceil((1.0 * total_count) / (1.0 * chunk_size)))
  \<close>
  The row count and the chunk size are natural numbers. Below \<open>2^53\<close> both are doubles
  exactly; the division then raises for a chunk size of zero, and otherwise its rounded
  quotient is the exact one when that is an integer and otherwise lies above the integer
  below the exact quotient and not above the integer after it (the exact quotient exceeds
  the integer below by at least the reciprocal of the chunk size, more than half the
  spacing of the doubles there, and rounding keeps the order), so that the ceiling taken
  in the code is the exact ceiling. From \<open>2^53\<close> on the value is
  the collaborator's.
\<close>

definition EXACT_LIMIT :: int where
  "EXACT_LIMIT = 2 ^ 53"

definition batches_of :: "('p, 'rx) env \<Rightarrow> nat \<Rightarrow> nat \<Rightarrow> error + nat" where
  "batches_of E total_count chunk_size =
     (if int total_count < EXACT_LIMIT \<and> int chunk_size < EXACT_LIMIT
      then (if chunk_size = 0 then Inl ZeroDivisionError
            else Inr ((total_count + chunk_size - 1) div chunk_size))
      else float_batches E total_count chunk_size)"

text \<open>
  \<^verbatim>\<open>
  for i in trange(batches, ...):
      records = cursor.fetchmany(size=chunk_size)
      if not records:
          break
      data = parmap.map(process_row, records, columns, excludes, pm_pbar=verbose)
      import_data(connection, temp_table, filter(None, data))
  \<close>
\<close>

fun fetch_loop ::
  "('p, 'rx) env \<Rightarrow> 'p column_definition list \<Rightarrow> exclude_definition list \<Rightarrow> string \<Rightarrow> nat \<Rightarrow>
   nat \<Rightarrow> conn \<Rightarrow> error + conn" where
  "fetch_loop E columns excludes temp_table chunk_size 0 c = Inr c"
| "fetch_loop E columns excludes temp_table chunk_size (Suc batches) c =
     (case fetchmany chunk_size c of
        (records, c1) \<Rightarrow>
          if records = [] then Inr c1
          else
            (case parmap_map E records columns excludes of
               Inl e \<Rightarrow> Inl e
             | Inr data \<Rightarrow>
                 (case import_data E c1 temp_table (filter_None data) of
                    Inl e \<Rightarrow> Inl e
                  | Inr c2 \<Rightarrow> fetch_loop E columns excludes temp_table chunk_size batches c2)))"

text \<open>
  \<^verbatim>\<open>
  column_names = get_column_names(columns)
  sql_columns = ', '.join(['"{}"'.format(column_name) for column_name in [primary_key] + column_names])
  sql_select = 'SELECT {columns} FROM "{table}"'.format(table=table, columns=sql_columns)
  if search:
      sql = "{select} WHERE {search_condition};".format(select=sql_select, search_condition=search)
  else:
      sql = "{select};".format(select=sql_select)
  cursor = connection.cursor(cursor_factory=psycopg2.extras.DictCursor, name='fetch_large_result')
  cursor.execute(sql)
  temp_table = 'tmp_{table}'.format(table=table)
  create_temporary_table(connection, columns, table, temp_table, primary_key)
  batches = ...
  for i in trange(batches, ...): ...
  apply_anonymized_data(connection, temp_table, table, primary_key, columns)
  cursor.close()
  \<close>
\<close>

definition select_sql :: "string \<Rightarrow> string \<Rightarrow> 'p column_definition list \<Rightarrow> string option \<Rightarrow> string" where
  \<open>select_sql table primary_key columns search =
     (let column_names = get_column_names columns;
          sql_columns = join '', '' (map quoted (primary_key # column_names));
          sql_select = ''SELECT '' @ sql_columns @ '' FROM "'' @ table @ ''"''
      in case search of
           None \<Rightarrow> sql_select @ '';''
         | Some search_condition \<Rightarrow>
             if search_condition \<noteq> [] then sql_select @ '' WHERE '' @ search_condition @ '';''
             else sql_select @ '';'')\<close>

definition build_and_then_import_data ::
  "('p, 'rx) env \<Rightarrow> conn \<Rightarrow> string \<Rightarrow> string \<Rightarrow> 'p column_definition list \<Rightarrow>
   exclude_definition list \<Rightarrow> string option \<Rightarrow> nat \<Rightarrow> nat \<Rightarrow> error + conn" where
  "build_and_then_import_data E c table primary_key columns excludes search total_count chunk_size =
     (let c1 = execute (select_sql table primary_key columns search) c;
          temp_table = ''tmp_'' @ table;
          c2 = create_temporary_table E c1 columns table temp_table primary_key
      in case batches_of E total_count chunk_size of
           Inl e \<Rightarrow> Inl e
         | Inr batches \<Rightarrow>
             (case fetch_loop E columns excludes temp_table chunk_size batches c2 of
                Inl e \<Rightarrow> Inl e
              | Inr c3 \<Rightarrow> Inr (apply_anonymized_data c3 temp_table table primary_key columns)))"

text \<open>
  The loop the specification describes: fetch until a batch comes back empty, with no
  bound on the number of batches. It ends because a batch that is not empty shortens the
  rest of the cursor.
\<close>

function fetch_until_empty ::
  "('p, 'rx) env \<Rightarrow> 'p column_definition list \<Rightarrow> exclude_definition list \<Rightarrow> string \<Rightarrow> nat \<Rightarrow>
   conn \<Rightarrow> error + conn" where
  "fetch_until_empty E columns excludes temp_table chunk_size c =
     (case fetchmany chunk_size c of
        (records, c1) \<Rightarrow>
          if records = [] then Inr c1
          else
            (case parmap_map E records columns excludes of
               Inl e \<Rightarrow> Inl e
             | Inr data \<Rightarrow>
                 (case import_data E c1 temp_table (filter_None data) of
                    Inl e \<Rightarrow> Inl e
                  | Inr c2 \<Rightarrow> fetch_until_empty E columns excludes temp_table chunk_size c2)))"
  by pat_completeness auto
termination
  by (relation "measure (\<lambda>(E, columns, excludes, temp_table, chunk_size, c). length (cursor_rows c))")
    (auto simp: fetchmany_def import_data_def copy_from_def Let_def split: option.splits if_splits)

declare fetch_until_empty.simps [simp del]

definition build_until_empty ::
  "('p, 'rx) env \<Rightarrow> conn \<Rightarrow> string \<Rightarrow> string \<Rightarrow> 'p column_definition list \<Rightarrow>
   exclude_definition list \<Rightarrow> string option \<Rightarrow> nat \<Rightarrow> error + conn" where
  "build_until_empty E c table primary_key columns excludes search chunk_size =
     (let c1 = execute (select_sql table primary_key columns search) c;
          temp_table = ''tmp_'' @ table;
          c2 = create_temporary_table E c1 columns table temp_table primary_key
      in case fetch_until_empty E columns excludes temp_table chunk_size c2 of
           Inl e \<Rightarrow> Inl e
         | Inr c3 \<Rightarrow> Inr (apply_anonymized_data c3 temp_table table primary_key columns))"

section \<open>Batches and staged rows\<close>

text \<open>
  The batches of a result set read in chunks of \<open>n\<close> rows, and the rows of one batch that
  reach staging: the rows \<open>process_row\<close> returns, in order (\<open>filter\<close> drops an empty one).
\<close>

function chunks :: "nat \<Rightarrow> 'a list \<Rightarrow> 'a list list" where
  "chunks n xs = (if n = 0 \<or> xs = [] then [] else take n xs # chunks n (drop n xs))"
  by pat_completeness auto
termination
  by (relation "measure (\<lambda>(n, xs). length xs)") auto

declare chunks.simps [simp del]

definition staged_rows ::
  "('p, 'rx) env \<Rightarrow> 'p column_definition list \<Rightarrow> exclude_definition list \<Rightarrow> row list \<Rightarrow> row list" where
  "staged_rows E columns excludes records =
     concat (map (\<lambda>r. case process_row E r columns excludes of
                         Inr (Some r') \<Rightarrow> if r' = [] then [] else [r']
                       | _ \<Rightarrow> []) records)"

section \<open>The specification's wording, for comparison\<close>

text \<open>
  The encoder as the specification words it: a backslash before each backslash, newline,
  carriage return and tab; fields joined by the delimiter, rows ended by a newline, and
  nothing else.
\<close>

definition spec_escape :: "string \<Rightarrow> string" where
  "spec_escape text =
     concat (map (\<lambda>c. if c = BACKSLASH \<or> c = NEWLINE \<or> c = CR \<or> c = TAB then [BACKSLASH, c] else [c]) text)"

fun spec_csv_value :: "('p, 'rx) env \<Rightarrow> pyval \<Rightarrow> string" where
  "spec_csv_value E PNone = [BACKSLASH, CHR ''N'']"
| "spec_csv_value E (PStr s) = spec_escape (strip s)"
| "spec_csv_value E (PDict d) = spec_escape (json_dumps E d)"
| "spec_csv_value E (PInt i) = show_int i"
| "spec_csv_value E (PBool b) = (if b then ''True'' else ''False'')"

definition spec_data2csv :: "('p, 'rx) env \<Rightarrow> row list \<Rightarrow> string" where
  "spec_data2csv E data =
     concat (map (\<lambda>row. join [COPY_DB_DELIMITER E] (map (\<lambda>(k, x). spec_csv_value E x) row) @ [NEWLINE]) data)"

text \<open>What the four replacements of \<open>escape_str_replace\<close> write for one character.\<close>

definition escape_char :: "char \<Rightarrow> string" where
  "escape_char c =
     (if c = BACKSLASH then [BACKSLASH, BACKSLASH]
      else if c = NEWLINE then [BACKSLASH, CHR ''n'']
      else if c = CR then [BACKSLASH, CHR ''r'']
      else if c = TAB then [BACKSLASH, CHR ''t'']
      else [c])"

text \<open>
  A row the writer leaves unquoted: no encoded field holds the delimiter or the quote
  character, and the row is not a single empty field.
\<close>

definition plain_fields :: "('p, 'rx) env \<Rightarrow> row \<Rightarrow> bool" where
  "plain_fields E row =
     (list_all (\<lambda>(k, x). COPY_DB_DELIMITER E \<notin> set (csv_value E x) \<and> QUOTECHAR \<notin> set (csv_value E x)) row
      \<and> map (\<lambda>(k, x). csv_value E x) row \<noteq> [[]])"

text \<open>
  The exclusion condition as the specification words it: some rule names a column whose
  value is text that one of the rule's patterns matches.
\<close>

definition pattern_matches :: "('p, 'rx) env \<Rightarrow> row \<Rightarrow> string \<Rightarrow> string \<Rightarrow> bool" where
  "pattern_matches E row column exclude =
     (case re_compile E exclude of
        Inl e \<Rightarrow> False
      | Inr pattern \<Rightarrow>
          (case map_of row column of Some (PStr s) \<Rightarrow> re_match E pattern s | _ \<Rightarrow> False))"

definition spec_row_excluded :: "('p, 'rx) env \<Rightarrow> row \<Rightarrow> exclude_definition list \<Rightarrow> bool" where
  "spec_row_excluded E row excludes =
     list_ex (\<lambda>definition.
        list_ex (pattern_matches E row (exclude_column definition)) (exclude_patterns definition))
       excludes"

section \<open>A small instance of the collaborators\<close>

text \<open>
  For evaluating the definitions on examples: the delimiter is the unit separator, a
  pattern without an opening parenthesis is a literal text matched at the start without
  regard to the case of ASCII letters (any other pattern is rejected), a provider is
  configured by the text it puts in place of every value, and the server accepts every
  bulk load. The examples use no number of \<open>2^53\<close> or more; for one the instance raises
  \<open>OverflowError\<close>, as Python does past the range of a double. \<open>strict_env\<close> differs in
  the server, which rejects every bulk load with the exception it is given.
\<close>

definition ascii_lower :: "char \<Rightarrow> char" where
  "ascii_lower c =
     (case map_of (zip ''ABCDEFGHIJKLMNOPQRSTUVWXYZ'' ''abcdefghijklmnopqrstuvwxyz'') c of
        None \<Rightarrow> c | Some l \<Rightarrow> l)"

definition example_env :: "(string, string) env" where
  "example_env = \<lparr>
     COPY_DB_DELIMITER = CHR 0x1F,
     DEFAULT_PRIMARY_KEY = ''id'',
     json_dumps = (\<lambda>d. if d = [] then ''{}'' else ''{...}''),
     re_compile = (\<lambda>p. if CHR ''('' \<in> set p then Inl (ReError p) else Inr (map ascii_lower p)),
     re_match = (\<lambda>rx s. take (length rx) (map ascii_lower s) = rx),
     alter_value = (\<lambda>p v. Inr (PStr p)),
     cursor_copy_from = (\<lambda>t d. None),
     float_batches = (\<lambda>t c. Inl OverflowError) \<rparr>"

definition strict_env :: "driver_exc \<Rightarrow> (string, string) env" where
  "strict_env exc = example_env\<lparr>cursor_copy_from := (\<lambda>t d. Some exc)\<rparr>"

section \<open>Properties of the bulk encoder\<close>

lemma escape_str_replace_chars: "escape_str_replace text = concat (map escape_char text)"
  by (induction "text")
    (simp_all add: escape_str_replace_def replace_def escape_char_def
       BACKSLASH_def NEWLINE_def CR_def TAB_def)

lemma newline_notin_escape: "NEWLINE \<notin> set (escape_str_replace text)"
  by (induction "text")
    (simp_all add: escape_str_replace_chars escape_char_def BACKSLASH_def NEWLINE_def CR_def TAB_def)

lemma digit_char_digit: "n < 10 \<Longrightarrow> digit_char n \<in> set ''0123456789''"
  unfolding digit_char_def by (rule nth_mem) simp

lemma show_nat_digits: "set (show_nat n) \<subseteq> set ''0123456789''"
proof (induction n rule: show_nat.induct)
  case (1 n)
  show ?case
  proof (cases "n < 10")
    case True
    then show ?thesis using digit_char_digit [of n] by (subst show_nat.simps) simp
  next
    case False
    have "n mod 10 < 10" by simp
    then have "digit_char (n mod 10) \<in> set ''0123456789''" by (rule digit_char_digit)
    with False "1.IH" show ?thesis by (subst show_nat.simps) simp
  qed
qed

lemma newline_notin_show_int: "NEWLINE \<notin> set (show_int i)"
  using show_nat_digits [of "nat i"] show_nat_digits [of "nat (- i)"]
  by (auto simp: show_int_def NEWLINE_def)

lemma newline_notin_csv_value: "NEWLINE \<notin> set (csv_value E x)"
proof (cases x)
  case PNone
  then show ?thesis by (simp add: BACKSLASH_def NEWLINE_def)
next
  case (PBool b)
  then show ?thesis by (simp add: NEWLINE_def)
qed (simp_all add: newline_notin_escape newline_notin_show_int)

lemma csv_field_plain:
  "d \<notin> set field \<Longrightarrow> QUOTECHAR \<notin> set field \<Longrightarrow> NEWLINE \<notin> set field \<Longrightarrow> csv_field d field = field"
  by (auto simp: csv_field_def csv_needs_quote_def LINETERMINATOR_def)

lemma writerow_plain:
  assumes "plain_fields E row"
  shows "writerow (COPY_DB_DELIMITER E) (map (\<lambda>(k, x). csv_value E x) row) =
         join [COPY_DB_DELIMITER E] (map (\<lambda>(k, x). csv_value E x) row) @ [NEWLINE]"
proof -
  let ?fields = "map (\<lambda>(k, x). csv_value E x) row"
  have "\<And>f. f \<in> set ?fields \<Longrightarrow> csv_field (COPY_DB_DELIMITER E) f = f"
    using assms
    by (auto simp: plain_fields_def list_all_iff intro!: csv_field_plain newline_notin_csv_value)
  then have "map (csv_field (COPY_DB_DELIMITER E)) ?fields = ?fields"
    by (rule map_idI)
  moreover have "?fields \<noteq> [[]]"
    using assms by (simp add: plain_fields_def)
  ultimately show ?thesis
    by (simp only: writerow_def LINETERMINATOR_def if_False)
qed

text \<open>
  Read to the letter, the specification's escape keeps the character behind the backslash;
  the code writes the letter \<open>n\<close>, \<open>r\<close> or \<open>t\<close> there, the usual spelling of the same character.
\<close>

lemma escape_str_replace_not_spec_escape: "escape_str_replace [NEWLINE] \<noteq> spec_escape [NEWLINE]"
  by code_simp

text \<open>
  What the encoder writes for rows the writer leaves unquoted: the encoded fields of each
  row joined by the delimiter and ended by a newline, where a null is encoded as
  backslash-N, a text as its stripped form with backslash, newline, carriage return and
  tab replaced by backslash-backslash, backslash-n, backslash-r and backslash-t, a dict as
  its JSON text escaped the same way, and an integer or boolean as its \<open>str\<close> form. Rows
  that the writer quotes are not covered by it.
\<close>

theorem data2csv_encoding:
  assumes "list_all (plain_fields E) data"
  shows "data2csv E data =
           concat (map (\<lambda>row. join [COPY_DB_DELIMITER E] (map (\<lambda>(k, x). csv_value E x) row) @ [NEWLINE]) data)
         \<and> csv_value E PNone = [BACKSLASH, CHR ''N'']
         \<and> csv_value E (PStr s) = concat (map escape_char (strip s))
         \<and> csv_value E (PDict d) = concat (map escape_char (json_dumps E d))
         \<and> csv_value E (PInt i) = show_int i
         \<and> csv_value E (PBool b) = (if b then ''True'' else ''False'')"
proof -
  have "\<And>row. row \<in> set data \<Longrightarrow>
          writerow (COPY_DB_DELIMITER E) (map (\<lambda>(k, x). csv_value E x) row) =
          join [COPY_DB_DELIMITER E] (map (\<lambda>(k, x). csv_value E x) row) @ [NEWLINE]"
    using assms by (intro writerow_plain) (simp add: list_all_iff)
  then have "map (\<lambda>row. writerow (COPY_DB_DELIMITER E) (map (\<lambda>(k, x). csv_value E x) row)) data =
        map (\<lambda>row. join [COPY_DB_DELIMITER E] (map (\<lambda>(k, x). csv_value E x) row) @ [NEWLINE]) data"
    by (rule map_cong [OF refl])
  then have "data2csv E data =
           concat (map (\<lambda>row. join [COPY_DB_DELIMITER E] (map (\<lambda>(k, x). csv_value E x) row) @ [NEWLINE]) data)"
    by (simp only: data2csv_def)
  then show ?thesis
    by (simp add: escape_str_replace_chars)
qed

text \<open>
  The theorem at a row with an integer, a text with surrounding blanks and a tab, a
  boolean and a null.
\<close>

theorem data2csv_encoding_witness:
  "list_all (plain_fields example_env)
     [[(''id'', PInt 7), (''note'', PStr ('' a'' @ [TAB] @ ''b '')), (''flag'', PBool True), (''gone'', PNone)]]
   \<and> data2csv example_env
       [[(''id'', PInt 7), (''note'', PStr ('' a'' @ [TAB] @ ''b '')), (''flag'', PBool True), (''gone'', PNone)]]
     = ''7'' @ [CHR 0x1F] @ ''a'' @ [BACKSLASH] @ ''tb'' @ [CHR 0x1F] @ ''True'' @ [CHR 0x1F, BACKSLASH] @ ''N'' @ [NEWLINE]"
proof -
  let ?data = "[[(''id'', PInt 7), (''note'', PStr ('' a'' @ [TAB] @ ''b '')), (''flag'', PBool True), (''gone'', PNone)]]"
  have h: "list_all (plain_fields example_env) ?data"
    by code_simp
  have v: "concat (map (\<lambda>row. join [COPY_DB_DELIMITER example_env] (map (\<lambda>(k, x). csv_value example_env x) row) @ [NEWLINE]) ?data)
     = ''7'' @ [CHR 0x1F] @ ''a'' @ [BACKSLASH] @ ''tb'' @ [CHR 0x1F] @ ''True'' @ [CHR 0x1F, BACKSLASH] @ ''N'' @ [NEWLINE]"
    by code_simp
  from data2csv_encoding [OF h, THEN conjunct1] v
  have "data2csv example_env ?data
     = ''7'' @ [CHR 0x1F] @ ''a'' @ [BACKSLASH] @ ''tb'' @ [CHR 0x1F] @ ''True'' @ [CHR 0x1F, BACKSLASH] @ ''N'' @ [NEWLINE]"
    by (rule trans)
  with h show ?thesis by (rule conjI)
qed

text \<open>
  Claim C3: every value is written in the stated encoding, fields joined by the
  delimiter, rows ended by a newline. The code does not do so for a text that holds the
  writer's quote character: for the row of the number 12 and the text \<open>a~b\<close>, for which
  the stated encoding is \<open>12\<close>, the delimiter, \<open>a~b\<close> and a newline, it writes the text
  between two quote characters with the inner one doubled. The bulk load that follows
  reads its input as text, where no character quotes, and stores all of it as data.
\<close>

theorem data2csv_quote_character:
  "data2csv example_env [[(''id'', PInt 12), (''email'', PStr ''a~b'')]]
     = ''12'' @ [CHR 0x1F] @ ''~a~~b~'' @ [NEWLINE]
   \<and> spec_data2csv example_env [[(''id'', PInt 12), (''email'', PStr ''a~b'')]]
     = ''12'' @ [CHR 0x1F] @ ''a~b'' @ [NEWLINE]"
  by code_simp

section \<open>Properties of the row transformer\<close>

lemma get_column_values_loop_append:
  "get_column_values_loop E row (xs @ ys) acc =
     (case get_column_values_loop E row xs acc of
        Inl e \<Rightarrow> Inl e
      | Inr acc' \<Rightarrow> get_column_values_loop E row ys acc')"
proof (induction xs arbitrary: acc)
  case Nil
  show ?case by simp
next
  case (Cons x xs)
  obtain calls d where acc: "acc = (calls, d)" by (cases acc)
  show ?case
    unfolding acc by (simp add: Cons.IH Let_def split: sum.splits option.splits)
qed

lemma get_column_values_loop_untouched:
  assumes "get_column_values_loop E row columns (calls, d) = Inr (calls', d')"
    and "k \<notin> set (get_column_names columns) \<or> \<not> truthy (row_get row k)"
  shows "map_of d' k = map_of d k \<and> (k \<in> fst ` set calls' \<longleftrightarrow> k \<in> fst ` set calls)"
  using assms
proof (induction columns arbitrary: calls d)
  case Nil
  then show ?case by simp
next
  case (Cons x xs)
  show ?case
  proof (cases "truthy (row_get row (column_name x))")
    case False
    with Cons.prems have "get_column_values_loop E row xs (calls, d) = Inr (calls', d')"
      by simp
    moreover from Cons.prems(2) have "k \<notin> set (get_column_names xs) \<or> \<not> truthy (row_get row k)"
      by (auto simp: get_column_names_def)
    ultimately show ?thesis by (rule Cons.IH)
  next
    case True
    with Cons.prems(2) have neq: "column_name x \<noteq> k"
      by (auto simp: get_column_names_def)
    from True Cons.prems(1) obtain v where
      step: "get_column_values_loop E row xs
               (calls @ [(column_name x, provider_config x, row_get row (column_name x))],
                AList.update (column_name x) v d) = Inr (calls', d')"
      by (auto simp: Let_def split: sum.splits)
    from Cons.prems(2) have "k \<notin> set (get_column_names xs) \<or> \<not> truthy (row_get row k)"
      by (auto simp: get_column_names_def)
    from Cons.IH [OF step this] neq show ?thesis
      by (simp add: update_conv')
  qed
qed

lemma get_column_values_loop_distinct:
  assumes "get_column_values_loop E row columns (calls, d) = Inr (calls', d')"
    and "distinct (map fst d)"
  shows "distinct (map fst d')"
  using assms
proof (induction columns arbitrary: calls d)
  case Nil
  then show ?case by simp
next
  case (Cons x xs)
  show ?case
  proof (cases "truthy (row_get row (column_name x))")
    case False
    with Cons.prems show ?thesis by (auto intro: Cons.IH)
  next
    case True
    from True Cons.prems(1) obtain v where
      step: "get_column_values_loop E row xs
               (calls @ [(column_name x, provider_config x, row_get row (column_name x))],
                AList.update (column_name x) v d) = Inr (calls', d')"
      by (auto simp: Let_def split: sum.splits)
    from Cons.prems(2) have "distinct (map fst (AList.update (column_name x) v d))"
      by (rule distinct_update)
    with step show ?thesis by (rule Cons.IH)
  qed
qed

lemma get_column_values_loop_calls:
  assumes "get_column_values_loop E row columns (calls, d) = Inr (calls', d')"
    and "\<forall>(c, p, a) \<in> set calls. a = row_get row c \<and> truthy a"
    and "\<forall>k \<in> fst ` set d. truthy (row_get row k)"
  shows "(\<forall>(c, p, a) \<in> set calls'. a = row_get row c \<and> truthy a)
       \<and> (\<forall>k \<in> fst ` set d'. truthy (row_get row k))"
  using assms
proof (induction columns arbitrary: calls d)
  case Nil
  then show ?case by simp
next
  case (Cons x xs)
  show ?case
  proof (cases "truthy (row_get row (column_name x))")
    case False
    with Cons.prems(1) have "get_column_values_loop E row xs (calls, d) = Inr (calls', d')"
      by simp
    from Cons.IH [OF this Cons.prems(2) Cons.prems(3)] show ?thesis .
  next
    case True
    from True Cons.prems(1) obtain v where
      step: "get_column_values_loop E row xs
               (calls @ [(column_name x, provider_config x, row_get row (column_name x))],
                AList.update (column_name x) v d) = Inr (calls', d')"
      by (auto simp: Let_def split: sum.splits)
    have 1: "\<forall>(c, p, a) \<in> set (calls @ [(column_name x, provider_config x, row_get row (column_name x))]).
               a = row_get row c \<and> truthy a"
      using Cons.prems(2) True by auto
    have 2: "\<forall>k \<in> fst ` set (AList.update (column_name x) v d). truthy (row_get row k)"
      using Cons.prems(3) True by (auto simp: dom_update)
    from Cons.IH [OF step 1 2] show ?thesis .
  qed
qed

lemma row_setitem_map_of:
  "row_setitem k v row = Inr row' \<Longrightarrow> map_of row' = (map_of row)(k \<mapsto> v) \<and> map fst row' = map fst row"
proof -
  assume a: "row_setitem k v row = Inr row'"
  then have k: "k \<in> set (map fst row)" and r: "row' = AList.update k v row"
    by (simp_all add: row_setitem_def split: if_splits)
  from k have "map fst (AList.update k v row) = map fst row"
    by (simp only: update_keys if_True)
  with r show ?thesis by (simp add: update_conv')
qed

lemma set_items_overlay:
  assumes "set_items items row = Inr row'" and "distinct (map fst items)"
  shows "map_of row' = map_of row ++ map_of items \<and> map fst row' = map fst row"
  using assms
proof (induction items arbitrary: row)
  case Nil
  then show ?case by simp
next
  case (Cons kv rest)
  obtain k v where kv: "kv = (k, v)" by (cases kv)
  from Cons.prems(1) obtain row1 where
    r1: "row_setitem k v row = Inr row1" and rest: "set_items rest row1 = Inr row'"
    by (auto simp: kv split: sum.splits)
  from Cons.prems(2) have d: "distinct (map fst rest)" and notin: "k \<notin> fst ` set rest"
    by (auto simp: kv)
  from Cons.IH [OF rest d] row_setitem_map_of [OF r1]
  have "map_of row' = (map_of row)(k \<mapsto> v) ++ map_of rest" and keys: "map fst row' = map fst row"
    by (simp_all only:)
  moreover have "(map_of row)(k \<mapsto> v) ++ map_of rest = map_of row ++ map_of (kv # rest)"
  proof -
    from notin have "map_of rest k = None" by (simp add: map_of_eq_None_iff)
    then show ?thesis by (auto simp: kv map_add_def fun_eq_iff split: option.splits)
  qed
  ultimately show ?case by (simp only:)
qed


lemma process_row_SomeD:
  assumes "process_row E row columns excludes = Inr (Some row')"
  obtains calls d where
    "row_matches_excludes E row excludes = Inr False"
    "get_column_values_traced E row columns = Inr (calls, d)"
    "get_column_values E row columns = Inr d"
    "set_items d row = Inr row'"
    "distinct (map fst d)"
proof -
  from assms have ex: "row_matches_excludes E row excludes = Inr False"
    by (auto simp: process_row_def split: sum.splits bool.splits if_splits)
  with assms obtain d where
    gcv: "get_column_values E row columns = Inr d" and si: "set_items d row = Inr row'"
    by (auto simp: process_row_def map_sum_def split: sum.splits)
  from gcv obtain calls where
    tr: "get_column_values_traced E row columns = Inr (calls, d)"
    by (cases "get_column_values_traced E row columns") (auto simp: get_column_values_def)
  then have "get_column_values_loop E row columns ([], []) = Inr (calls, d)"
    by (simp add: get_column_values_traced_def)
  then have "distinct (map fst d)"
    by (rule get_column_values_loop_distinct) simp
  with ex tr gcv si show ?thesis by (rule that)
qed

text \<open>
  Claim C9. A row that is not excluded comes back from \<open>process_row\<close> with the same
  columns in the same order, and with its original value in every column that no column
  rule names (the identifying column among them, unless a rule names it).
\<close>

theorem process_row_frame:
  assumes "process_row E row columns excludes = Inr (Some row')"
    and "k \<notin> set (get_column_names columns)"
  shows "map_of row' k = map_of row k \<and> map fst row' = map fst row"
proof -
  from assms(1) obtain calls d where
    tr: "get_column_values_traced E row columns = Inr (calls, d)"
    and si: "set_items d row = Inr row'" and dist: "distinct (map fst d)"
    by (rule process_row_SomeD)
  from tr have "get_column_values_loop E row columns ([], []) = Inr (calls, d)"
    by (simp add: get_column_values_traced_def)
  from get_column_values_loop_untouched [OF this] assms(2) have "map_of d k = None"
    by simp
  with set_items_overlay [OF si dist] show ?thesis
    by (simp add: map_add_def)
qed

text \<open>
  Claim C6. For a row that is not excluded and a column whose original value is null or
  the empty text, the provider is not invoked for the column, the column is absent from
  the mapping \<open>get_column_values\<close> returns, and the row keeps its original value there.
\<close>

theorem null_or_empty_skipped:
  assumes "process_row E row columns excludes = Inr (Some row')"
    and "row_get row k = PNone \<or> row_get row k = PStr []"
  shows "\<exists>calls d. get_column_values_traced E row columns = Inr (calls, d)
           \<and> get_column_values E row columns = Inr d
           \<and> k \<notin> fst ` set calls
           \<and> k \<notin> fst ` set d
           \<and> map_of row' k = map_of row k"
proof -
  from assms(1) obtain calls d where
    tr: "get_column_values_traced E row columns = Inr (calls, d)"
    and gcv: "get_column_values E row columns = Inr d"
    and si: "set_items d row = Inr row'" and dist: "distinct (map fst d)"
    by (rule process_row_SomeD)
  from tr have loop: "get_column_values_loop E row columns ([], []) = Inr (calls, d)"
    by (simp add: get_column_values_traced_def)
  from assms(2) have "\<not> truthy (row_get row k)" by auto
  with get_column_values_loop_untouched [OF loop, of k]
  have none: "map_of d k = None" and nocall: "k \<notin> fst ` set calls"
    by simp_all
  from none have "k \<notin> fst ` set d" by (simp add: map_of_eq_None_iff)
  moreover from none set_items_overlay [OF si dist] have "map_of row' k = map_of row k"
    by (simp add: map_add_def)
  ultimately show ?thesis using tr gcv nocall by blast
qed

text \<open>
  Claim C10. For a row that is not excluded, every provider invocation gets the original
  value of its column and that value is true in Python's sense; every key of the output
  mapping has such a value. So a column holding the number 0, \<open>False\<close> or an empty dict,
  like one holding null or the empty text, causes no invocation, is left out of the
  mapping and keeps its value in the row.
\<close>

theorem falsy_values_skipped:
  assumes "process_row E row columns excludes = Inr (Some row')"
  shows "\<exists>calls d. get_column_values_traced E row columns = Inr (calls, d)
           \<and> (\<forall>(c, p, a) \<in> set calls. a = row_get row c \<and> truthy a)
           \<and> (\<forall>k \<in> fst ` set d. truthy (row_get row k))
           \<and> (\<forall>k. row_get row k \<in> {PNone, PStr [], PInt 0, PBool False, PDict []} \<longrightarrow>
                  k \<notin> fst ` set calls \<and> k \<notin> fst ` set d \<and> map_of row' k = map_of row k)"
proof -
  from assms(1) obtain calls d where
    tr: "get_column_values_traced E row columns = Inr (calls, d)"
    and si: "set_items d row = Inr row'" and dist: "distinct (map fst d)"
    by (rule process_row_SomeD)
  from tr have loop: "get_column_values_loop E row columns ([], []) = Inr (calls, d)"
    by (simp add: get_column_values_traced_def)
  from get_column_values_loop_calls [OF loop]
  have 1: "\<forall>(c, p, a) \<in> set calls. a = row_get row c \<and> truthy a"
    and 2: "\<forall>k \<in> fst ` set d. truthy (row_get row k)"
    by simp_all
  have 3: "k \<notin> fst ` set calls \<and> k \<notin> fst ` set d \<and> map_of row' k = map_of row k"
    if "row_get row k \<in> {PNone, PStr [], PInt 0, PBool False, PDict []}" for k
  proof -
    from that have falsy: "\<not> truthy (row_get row k)" by auto
    with get_column_values_loop_untouched [OF loop, of k]
    have none: "map_of d k = None" and nocall: "k \<notin> fst ` set calls"
      by simp_all
    from none have "k \<notin> fst ` set d" by (simp add: map_of_eq_None_iff)
    moreover from none set_items_overlay [OF si dist] have "map_of row' k = map_of row k"
      by (simp add: map_add_def)
    ultimately show ?thesis using nocall by simp
  qed
  from tr 1 2 3 show ?thesis by blast
qed

text \<open>
  Claim C2, as amended. For a row that is not excluded and the last rule naming a column
  whose original value is true in Python's sense (not null, empty, zero or \<open>False\<close>), the
  value in the output row is the provider's result for the original value, with the
  suffix concatenated when a suffix that is not empty is configured (the result is then a
  text) and unchanged otherwise.
\<close>

theorem truthy_value_transformed:
  assumes "process_row E row columns excludes = Inr (Some row')"
    and "columns = pre @ definition # post"
    and "column_name definition \<notin> set (get_column_names post)"
    and "truthy (row_get row (column_name definition))"
  shows "\<exists>value. alter_value E (provider_config definition) (row_get row (column_name definition)) = Inr value
           \<and> (case append definition of
                 None \<Rightarrow> map_of row' (column_name definition) = Some value
               | Some a \<Rightarrow>
                   if a = [] then map_of row' (column_name definition) = Some value
                   else \<exists>s. value = PStr s \<and> map_of row' (column_name definition) = Some (PStr (s @ a)))"
proof -
  let ?k = "column_name definition"
  from assms(1) obtain calls d where
    tr: "get_column_values_traced E row columns = Inr (calls, d)"
    and si: "set_items d row = Inr row'" and dist: "distinct (map fst d)"
    by (rule process_row_SomeD)
  from tr have "get_column_values_loop E row (pre @ definition # post) ([], []) = Inr (calls, d)"
    by (simp add: get_column_values_traced_def assms(2))
  then obtain calls1 d1 where
    "get_column_values_loop E row (definition # post) (calls1, d1) = Inr (calls, d)"
    by (auto simp: get_column_values_loop_append split: sum.splits)
  with assms(4) obtain "value" value' where
    alt: "alter_value E (provider_config definition) (row_get row ?k) = Inr value"
    and app: "(case append definition of
                 None \<Rightarrow> Inr value
               | Some a \<Rightarrow> if a \<noteq> [] then py_add value a else Inr value) = Inr value'"
    and rest: "get_column_values_loop E row post
                 (calls1 @ [(?k, provider_config definition, row_get row ?k)],
                  AList.update ?k value' d1) = Inr (calls, d)"
    by (auto simp: Let_def split: sum.splits)
  from get_column_values_loop_untouched [OF rest, of ?k] assms(3)
  have "map_of d ?k = Some value'"
    by (simp add: update_conv')
  with set_items_overlay [OF si dist] have final: "map_of row' ?k = Some value'"
    by (simp add: map_add_def)
  have "case append definition of
          None \<Rightarrow> map_of row' ?k = Some value
        | Some a \<Rightarrow>
            if a = [] then map_of row' ?k = Some value
            else \<exists>s. value = PStr s \<and> map_of row' ?k = Some (PStr (s @ a))"
  proof (cases "append definition")
    case None
    with app final show ?thesis by simp
  next
    case (Some a)
    show ?thesis
    proof (cases "a = []")
      case True
      with Some app final show ?thesis by simp
    next
      case False
      with Some app have "py_add value a = Inr value'" by simp
      then obtain s where "value = PStr s" "value' = PStr (s @ a)"
        by (cases "value") auto
      with Some False final show ?thesis by simp
    qed
  qed
  with alt show ?thesis by blast
qed

text \<open>The frame property at a row with one rule column.\<close>

theorem process_row_frame_witness:
  "process_row example_env [(''id'', PInt 1), (''email'', PStr ''a@b.c'')]
       [ColumnDefinition ''email'' ''x'' (Some ''@y'')] []
     = Inr (Some [(''id'', PInt 1), (''email'', PStr ''x@y'')])
   \<and> ''id'' \<notin> set (get_column_names [ColumnDefinition ''email'' ''x'' (Some ''@y'')])
   \<and> (map_of [(''id'', PInt 1), (''email'', PStr ''x@y'')] ''id''
         = map_of [(''id'', PInt 1), (''email'', PStr ''a@b.c'')] ''id''
      \<and> map fst [(''id'', PInt 1), (''email'', PStr ''x@y'')]
         = map fst [(''id'', PInt 1), (''email'', PStr ''a@b.c'')])"
  (is "?h1 \<and> ?h2 \<and> ?c")
proof -
  have h1: ?h1 by code_simp
  have h2: ?h2 by code_simp
  have c: ?c by (rule process_row_frame [OF h1 h2])
  show ?thesis by (rule conjI [OF h1 conjI [OF h2 c]])
qed

text \<open>The skipping of an empty text beside a column that is transformed.\<close>

theorem null_or_empty_skipped_witness:
  "process_row example_env [(''id'', PInt 1), (''email'', PStr []), (''name'', PStr ''Ann'')]
       [ColumnDefinition ''email'' ''x'' None, ColumnDefinition ''name'' ''y'' None] []
     = Inr (Some [(''id'', PInt 1), (''email'', PStr []), (''name'', PStr ''y'')])
   \<and> (row_get [(''id'', PInt 1), (''email'', PStr []), (''name'', PStr ''Ann'')] ''email'' = PNone
      \<or> row_get [(''id'', PInt 1), (''email'', PStr []), (''name'', PStr ''Ann'')] ''email'' = PStr [])
   \<and> (\<exists>calls d.
         get_column_values_traced example_env [(''id'', PInt 1), (''email'', PStr []), (''name'', PStr ''Ann'')]
           [ColumnDefinition ''email'' ''x'' None, ColumnDefinition ''name'' ''y'' None] = Inr (calls, d)
       \<and> get_column_values example_env [(''id'', PInt 1), (''email'', PStr []), (''name'', PStr ''Ann'')]
           [ColumnDefinition ''email'' ''x'' None, ColumnDefinition ''name'' ''y'' None] = Inr d
       \<and> ''email'' \<notin> fst ` set calls
       \<and> ''email'' \<notin> fst ` set d
       \<and> map_of [(''id'', PInt 1), (''email'', PStr []), (''name'', PStr ''y'')] ''email''
           = map_of [(''id'', PInt 1), (''email'', PStr []), (''name'', PStr ''Ann'')] ''email'')"
  (is "?h1 \<and> ?h2 \<and> ?c")
proof -
  have h1: ?h1 by code_simp
  have h2: ?h2 by code_simp
  have c: ?c by (rule null_or_empty_skipped [OF h1 h2])
  show ?thesis by (rule conjI [OF h1 conjI [OF h2 c]])
qed

text \<open>A row whose rule columns hold 0, \<open>False\<close> and an empty dict.\<close>

theorem falsy_values_skipped_witness:
  "process_row example_env [(''id'', PInt 1), (''visits'', PInt 0), (''active'', PBool False), (''extra'', PDict [])]
       [ColumnDefinition ''visits'' ''x'' None, ColumnDefinition ''active'' ''y'' None,
        ColumnDefinition ''extra'' ''z'' None] []
     = Inr (Some [(''id'', PInt 1), (''visits'', PInt 0), (''active'', PBool False), (''extra'', PDict [])])
   \<and> (\<exists>calls d.
         get_column_values_traced example_env
           [(''id'', PInt 1), (''visits'', PInt 0), (''active'', PBool False), (''extra'', PDict [])]
           [ColumnDefinition ''visits'' ''x'' None, ColumnDefinition ''active'' ''y'' None,
            ColumnDefinition ''extra'' ''z'' None] = Inr (calls, d)
       \<and> (\<forall>(c, p, a) \<in> set calls.
             a = row_get [(''id'', PInt 1), (''visits'', PInt 0), (''active'', PBool False), (''extra'', PDict [])] c
             \<and> truthy a)
       \<and> (\<forall>k \<in> fst ` set d.
             truthy (row_get [(''id'', PInt 1), (''visits'', PInt 0), (''active'', PBool False), (''extra'', PDict [])] k))
       \<and> (\<forall>k. row_get [(''id'', PInt 1), (''visits'', PInt 0), (''active'', PBool False), (''extra'', PDict [])] k
                 \<in> {PNone, PStr [], PInt 0, PBool False, PDict []} \<longrightarrow>
               k \<notin> fst ` set calls \<and> k \<notin> fst ` set d
               \<and> map_of [(''id'', PInt 1), (''visits'', PInt 0), (''active'', PBool False), (''extra'', PDict [])] k
                 = map_of [(''id'', PInt 1), (''visits'', PInt 0), (''active'', PBool False), (''extra'', PDict [])] k))"
  (is "?h1 \<and> ?c")
proof -
  have h1: ?h1 by code_simp
  have c: ?c by (rule falsy_values_skipped [OF h1])
  show ?thesis by (rule conjI [OF h1 c])
qed

text \<open>A text value replaced by the provider's result with the suffix appended.\<close>

theorem truthy_value_transformed_witness:
  "process_row example_env [(''id'', PInt 1), (''email'', PStr ''a@b.c'')]
       [ColumnDefinition ''email'' ''x'' (Some ''@y'')] []
     = Inr (Some [(''id'', PInt 1), (''email'', PStr ''x@y'')])
   \<and> [ColumnDefinition ''email'' ''x'' (Some ''@y'')] = [] @ ColumnDefinition ''email'' ''x'' (Some ''@y'') # []
   \<and> column_name (ColumnDefinition ''email'' ''x'' (Some ''@y''))
        \<notin> set (get_column_names ([] :: string column_definition list))
   \<and> truthy (row_get [(''id'', PInt 1), (''email'', PStr ''a@b.c'')]
        (column_name (ColumnDefinition ''email'' ''x'' (Some ''@y''))))
   \<and> (\<exists>value.
         alter_value example_env (provider_config (ColumnDefinition ''email'' ''x'' (Some ''@y'')))
           (row_get [(''id'', PInt 1), (''email'', PStr ''a@b.c'')]
              (column_name (ColumnDefinition ''email'' ''x'' (Some ''@y'')))) = Inr value
       \<and> (case append (ColumnDefinition ''email'' ''x'' (Some ''@y'')) of
             None \<Rightarrow> map_of [(''id'', PInt 1), (''email'', PStr ''x@y'')]
                       (column_name (ColumnDefinition ''email'' ''x'' (Some ''@y''))) = Some value
           | Some a \<Rightarrow>
               if a = [] then map_of [(''id'', PInt 1), (''email'', PStr ''x@y'')]
                       (column_name (ColumnDefinition ''email'' ''x'' (Some ''@y''))) = Some value
               else \<exists>s. value = PStr s
                      \<and> map_of [(''id'', PInt 1), (''email'', PStr ''x@y'')]
                          (column_name (ColumnDefinition ''email'' ''x'' (Some ''@y''))) = Some (PStr (s @ a))))"
  (is "?h1 \<and> ?h2 \<and> ?h3 \<and> ?h4 \<and> ?c")
proof -
  have h1: ?h1 by code_simp
  have h2: ?h2 by simp
  have h3: ?h3 by (simp add: get_column_names_def)
  have h4: ?h4 by code_simp
  have c: ?c by (rule truthy_value_transformed [OF h1 h2 h3 h4])
  show ?thesis by (rule conjI [OF h1 conjI [OF h2 conjI [OF h3 conjI [OF h4 c]]]])
qed

text \<open>
  Claim C2 as stated fails: an empty text is not null, yet the output row keeps it where
  the provider would have produced another value.
\<close>

theorem empty_text_counterexample:
  "process_row example_env [(''id'', PInt 1), (''email'', PStr [])] [ColumnDefinition ''email'' ''x'' None] []
     = Inr (Some [(''id'', PInt 1), (''email'', PStr [])])
   \<and> row_get [(''id'', PInt 1), (''email'', PStr [])] ''email'' \<noteq> PNone
   \<and> alter_value example_env ''x'' (row_get [(''id'', PInt 1), (''email'', PStr [])] ''email'') = Inr (PStr ''x'')
   \<and> row_get [(''id'', PInt 1), (''email'', PStr [])] ''email'' \<noteq> PStr ''x''"
  by code_simp

section \<open>Properties of the exclude filter\<close>

lemma match_patterns_iff:
  assumes "match_patterns E row column ps = Inr b"
  shows "b \<longleftrightarrow> list_ex (pattern_matches E row column) ps"
  using assms
proof (induction ps)
  case Nil
  then show ?case by simp
next
  case (Cons p ps)
  then show ?case
    by (auto simp: pattern_matches_def row_getitem_def
        split: sum.splits option.splits pyval.splits if_splits)
qed

lemma row_matches_excludes_iff:
  assumes "row_matches_excludes E row excludes = Inr b"
  shows "b \<longleftrightarrow> spec_row_excluded E row excludes"
  using assms
proof (induction excludes)
  case Nil
  then show ?case by (simp add: spec_row_excluded_def)
next
  case (Cons d ds)
  show ?case
  proof (cases "match_patterns E row (exclude_column d) (exclude_patterns d)")
    case (Inl e)
    with Cons.prems show ?thesis by simp
  next
    case (Inr m)
    note here = match_patterns_iff [OF Inr]
    show ?thesis
    proof (cases m)
      case True
      with Inr Cons.prems here show ?thesis by (simp add: spec_row_excluded_def)
    next
      case False
      with Inr Cons.prems have "row_matches_excludes E row ds = Inr b" by simp
      from Cons.IH [OF this] False here show ?thesis by (simp add: spec_row_excluded_def)
    qed
  qed
qed

lemma null_column_never_matches:
  "map_of row column = Some PNone \<Longrightarrow> match_patterns E row column ps \<noteq> Inr True"
  by (induction ps) (auto simp: row_getitem_def split: sum.splits)

text \<open>
  Claim C4, as amended. Whenever the evaluation of the exclude rules on a row raises
  nothing (every pattern reached compiles, every rule column reached is in the row and
  holds null or text), \<open>process_row\<close> returns the sentinel for an excluded row exactly when
  some rule names a column whose value is a text that one of the rule's patterns matches
  at its start; a rule whose column is null in the row matches with none of its patterns.
\<close>

theorem excluded_iff_pattern_matches:
  assumes "row_matches_excludes E row excludes = Inr b"
  shows "(process_row E row columns excludes = Inr None \<longleftrightarrow> spec_row_excluded E row excludes)
       \<and> (\<forall>d \<in> set excludes. map_of row (exclude_column d) = Some PNone \<longrightarrow>
            match_patterns E row (exclude_column d) (exclude_patterns d) \<noteq> Inr True)"
proof -
  have "process_row E row columns excludes = Inr None \<longleftrightarrow> b"
    using assms
    by (cases b) (auto simp: process_row_def map_sum_def split: sum.splits)
  with row_matches_excludes_iff [OF assms] have 1:
    "process_row E row columns excludes = Inr None \<longleftrightarrow> spec_row_excluded E row excludes"
    by simp
  have 2: "match_patterns E row (exclude_column d) (exclude_patterns d) \<noteq> Inr True"
    if "map_of row (exclude_column d) = Some PNone" for d
    using that by (rule null_column_never_matches)
  from 1 2 show ?thesis by blast
qed

text \<open>
  A row whose first rule column is null and whose second is matched, without regard to
  case, by the second pattern of its rule.
\<close>

theorem excluded_iff_pattern_matches_witness:
  "row_matches_excludes example_env [(''id'', PInt 1), (''email'', PStr ''Ann@Example.com''), (''name'', PNone)]
       [ExcludeDefinition ''name'' [''x''], ExcludeDefinition ''email'' [''bob'', ''ann@'']] = Inr True
   \<and> process_row example_env [(''id'', PInt 1), (''email'', PStr ''Ann@Example.com''), (''name'', PNone)]
       [ColumnDefinition ''email'' ''x'' None]
       [ExcludeDefinition ''name'' [''x''], ExcludeDefinition ''email'' [''bob'', ''ann@'']] = Inr None
   \<and> spec_row_excluded example_env [(''id'', PInt 1), (''email'', PStr ''Ann@Example.com''), (''name'', PNone)]
       [ExcludeDefinition ''name'' [''x''], ExcludeDefinition ''email'' [''bob'', ''ann@'']]"
  (is "?h \<and> ?p \<and> ?s")
proof -
  have h: ?h by code_simp
  have s: ?s by code_simp
  from excluded_iff_pattern_matches [OF h, THEN conjunct1, THEN iffD2, OF s]
  have p: ?p .
  show ?thesis by (rule conjI [OF h conjI [OF p s]])
qed

text \<open>
  Claim C4 as stated fails: with a rule on a column that holds a number, the row is not
  dropped although a later rule matches it; \<open>pattern.match\<close> raises \<open>TypeError\<close> first.
\<close>

theorem exclude_type_error_counterexample:
  "spec_row_excluded example_env [(''id'', PInt 1), (''age'', PInt 5), (''email'', PStr ''abc'')]
       [ExcludeDefinition ''age'' [''1''], ExcludeDefinition ''email'' [''a'']]
   \<and> process_row example_env [(''id'', PInt 1), (''age'', PInt 5), (''email'', PStr ''abc'')]
       [ColumnDefinition ''email'' ''x'' None]
       [ExcludeDefinition ''age'' [''1''], ExcludeDefinition ''email'' [''a'']] = Inl TypeError"
  by code_simp

section \<open>Properties of the staging loader\<close>

text \<open>
  Claim C7. When the server rejects a bulk load, \<open>copy_from\<close> (and \<open>import_data\<close>, which
  only calls it) raises \<open>BadDataFormat\<close> wrapping the driver's exception if that is
  \<open>BadCopyFileFormat\<close> or \<open>InvalidTextRepresentation\<close>, and lets any other exception
  through as it is.
\<close>

theorem bulk_load_error_conversion:
  assumes "cursor_copy_from E table (data2csv E data) = Some exc"
  shows "copy_from E c data table =
           (if exc = BadCopyFileFormat \<or> exc = InvalidTextRepresentation
            then Inl (BadDataFormat exc) else Inl (DriverError exc))
       \<and> import_data E c table data = copy_from E c data table"
  using assms by (simp add: copy_from_def import_data_def Let_def)

text \<open>A server that answers with a type mismatch, and one that answers with another error.\<close>

theorem bulk_load_error_conversion_witness:
  "cursor_copy_from (strict_env InvalidTextRepresentation) ''tmp_users''
       (data2csv (strict_env InvalidTextRepresentation) [[(''id'', PStr ''one'')]])
     = Some InvalidTextRepresentation
   \<and> copy_from (strict_env InvalidTextRepresentation) \<lparr>cursor_rows = [], log = []\<rparr>
       [[(''id'', PStr ''one'')]] ''tmp_users'' = Inl (BadDataFormat InvalidTextRepresentation)
   \<and> cursor_copy_from (strict_env OtherDriverError) ''tmp_users''
       (data2csv (strict_env OtherDriverError) [[(''id'', PStr ''one'')]])
     = Some OtherDriverError
   \<and> copy_from (strict_env OtherDriverError) \<lparr>cursor_rows = [], log = []\<rparr>
       [[(''id'', PStr ''one'')]] ''tmp_users'' = Inl (DriverError OtherDriverError)"
  (is "?h1 \<and> ?c1 \<and> ?h2 \<and> ?c2")
proof -
  have h1: ?h1 by (simp add: strict_env_def)
  have h2: ?h2 by (simp add: strict_env_def)
  from bulk_load_error_conversion [OF h1, THEN conjunct1] have c1: ?c1 by simp
  from bulk_load_error_conversion [OF h2, THEN conjunct1] have c2: ?c2 by simp
  show ?thesis by (rule conjI [OF h1 conjI [OF c1 conjI [OF h2 c2]]])
qed

section \<open>Properties of the merge-back\<close>

lemma fetch_loop_log:
  assumes "fetch_loop E columns excludes temp_table chunk_size batches c = Inr c'"
  shows "\<exists>loads. log c' = log c @ loads \<and> (\<forall>e \<in> set loads. \<exists>d. e = CopyFrom temp_table d)"
  using assms
proof (induction batches arbitrary: c)
  case 0
  then show ?case by simp
next
  case (Suc n)
  let ?records = "take chunk_size (cursor_rows c)"
  let ?c1 = "c\<lparr>cursor_rows := drop chunk_size (cursor_rows c)\<rparr>"
  show ?case
  proof (cases "?records = []")
    case True
    with Suc.prems have "c' = ?c1" by (simp add: fetchmany_def)
    then show ?thesis by simp
  next
    case False
    with Suc.prems obtain data c2 where
      imp: "import_data E ?c1 temp_table (filter_None data) = Inr c2"
      and rest: "fetch_loop E columns excludes temp_table chunk_size n c2 = Inr c'"
      by (auto simp: fetchmany_def split: sum.splits)
    from imp have l2: "log c2 = log c @ [CopyFrom temp_table (data2csv E (filter_None data))]"
      by (auto simp: import_data_def copy_from_def Let_def split: option.splits if_splits)
    from Suc.IH [OF rest] obtain loads where
      "log c' = log c2 @ loads" and "\<forall>e \<in> set loads. \<exists>d. e = CopyFrom temp_table d"
      by blast
    with l2 have "log c' = log c @ (CopyFrom temp_table (data2csv E (filter_None data)) # loads)
       \<and> (\<forall>e \<in> set (CopyFrom temp_table (data2csv E (filter_None data)) # loads). \<exists>d. e = CopyFrom temp_table d)"
      by simp
    then show ?thesis by blast
  qed
qed

text \<open>
  Claim C5. \<open>apply_anonymized_data\<close> executes two statements and no more: the creation of
  an index on the identifying column of the staging table, then one \<open>UPDATE\<close> of the source
  table whose \<open>SET\<close> clause assigns, for every rule column in order, the staging column to
  the column of the same name, joined on the identifying column. In a whole table run that
  ends normally the statements are the \<open>SELECT\<close>, the creation of the staging table, these
  two, and between them only bulk loads into the staging table.
\<close>

theorem merge_back_statements:
  \<open>log (apply_anonymized_data c temp_table source_table primary_key definitions) =
     log c @
     [Execute (''CREATE INDEX ON "'' @ temp_table @ ''" ("'' @ primary_key @ ''")''),
      Execute (''UPDATE "'' @ source_table @ ''" t SET ''
               @ join '', '' (map (\<lambda>d. ''"'' @ column_name d @ ''" = s."'' @ column_name d @ ''"'') definitions)
               @ '' FROM "'' @ temp_table @ ''" s WHERE t."'' @ primary_key @ ''" = s."'' @ primary_key @ ''";'')]
   \<and> (\<forall>c'. build_and_then_import_data E c table primary_key definitions excludes search total_count chunk_size = Inr c' \<longrightarrow>
        (\<exists>loads.
           log c' =
             log c @
             [Execute (select_sql table primary_key definitions search),
              Execute (ctas_query E definitions table (''tmp_'' @ table) primary_key)] @
             loads @
             [Execute (''CREATE INDEX ON "tmp_'' @ table @ ''" ("'' @ primary_key @ ''")''),
              Execute (''UPDATE "'' @ table @ ''" t SET ''
                       @ join '', '' (map (\<lambda>d. ''"'' @ column_name d @ ''" = s."'' @ column_name d @ ''"'') definitions)
                       @ '' FROM "tmp_'' @ table @ ''" s WHERE t."'' @ primary_key @ ''" = s."'' @ primary_key @ ''";'')]
           \<and> (\<forall>e \<in> set loads. \<exists>d. e = CopyFrom (''tmp_'' @ table) d)))\<close>
proof -
  have merge: \<open>log (apply_anonymized_data c0 temp source pk definitions) =
     log c0 @
     [Execute (''CREATE INDEX ON "'' @ temp @ ''" ("'' @ pk @ ''")''),
      Execute (''UPDATE "'' @ source @ ''" t SET ''
               @ join '', '' (map (\<lambda>d. ''"'' @ column_name d @ ''" = s."'' @ column_name d @ ''"'') definitions)
               @ '' FROM "'' @ temp @ ''" s WHERE t."'' @ pk @ ''" = s."'' @ pk @ ''";'')]\<close>
    for c0 temp source pk
    by (simp add: apply_anonymized_data_def execute_def Let_def quoted_def comp_def)
  have run: \<open>\<exists>loads.
           log c' =
             log c @
             [Execute (select_sql table primary_key definitions search),
              Execute (ctas_query E definitions table (''tmp_'' @ table) primary_key)] @
             loads @
             [Execute (''CREATE INDEX ON "tmp_'' @ table @ ''" ("'' @ primary_key @ ''")''),
              Execute (''UPDATE "'' @ table @ ''" t SET ''
                       @ join '', '' (map (\<lambda>d. ''"'' @ column_name d @ ''" = s."'' @ column_name d @ ''"'') definitions)
                       @ '' FROM "tmp_'' @ table @ ''" s WHERE t."'' @ primary_key @ ''" = s."'' @ primary_key @ ''";'')]
           \<and> (\<forall>e \<in> set loads. \<exists>d. e = CopyFrom (''tmp_'' @ table) d)\<close>
    if b: "build_and_then_import_data E c table primary_key definitions excludes search total_count chunk_size = Inr c'"
    for c'
  proof -
    let ?c2 = "create_temporary_table E (execute (select_sql table primary_key definitions search) c)
                 definitions table (''tmp_'' @ table) primary_key"
    from b obtain batches c3 where
      loop: "fetch_loop E definitions excludes (''tmp_'' @ table) chunk_size batches ?c2 = Inr c3"
      and c': "c' = apply_anonymized_data c3 (''tmp_'' @ table) table primary_key definitions"
      by (auto simp: build_and_then_import_data_def Let_def split: sum.splits)
    from fetch_loop_log [OF loop] obtain loads where
      l3: "log c3 = log ?c2 @ loads" and cp: "\<forall>e \<in> set loads. \<exists>d. e = CopyFrom (''tmp_'' @ table) d"
      by blast
    have l2: "log ?c2 = log c @ [Execute (select_sql table primary_key definitions search),
              Execute (ctas_query E definitions table (''tmp_'' @ table) primary_key)]"
      by (simp add: create_temporary_table_def execute_def)
    from merge [of c3 "''tmp_'' @ table" table primary_key] c' l3 l2 cp
    show ?thesis by (intro exI [of _ loads]) simp
  qed
  from merge run show ?thesis by blast
qed

text \<open>A run over a table of one row.\<close>

theorem merge_back_statements_witness:
  \<open>\<not> isl (build_and_then_import_data example_env
             \<lparr>cursor_rows = [[(''id'', PInt 1), (''email'', PStr ''a@b.c'')]], log = []\<rparr>
             ''users'' ''id'' [ColumnDefinition ''email'' ''x'' None] [] None 1 2)
   \<and> (\<exists>loads.
         log (projr (build_and_then_import_data example_env
                \<lparr>cursor_rows = [[(''id'', PInt 1), (''email'', PStr ''a@b.c'')]], log = []\<rparr>
                ''users'' ''id'' [ColumnDefinition ''email'' ''x'' None] [] None 1 2)) =
           log \<lparr>cursor_rows = [[(''id'', PInt 1), (''email'', PStr ''a@b.c'')]], log = []\<rparr> @
           [Execute (select_sql ''users'' ''id'' [ColumnDefinition ''email'' ''x'' None] None),
            Execute (ctas_query example_env [ColumnDefinition ''email'' ''x'' None] ''users'' (''tmp_'' @ ''users'') ''id'')] @
           loads @
           [Execute (''CREATE INDEX ON "tmp_'' @ ''users'' @ ''" ("'' @ ''id'' @ ''")''),
            Execute (''UPDATE "'' @ ''users'' @ ''" t SET ''
                     @ join '', '' (map (\<lambda>d. ''"'' @ column_name d @ ''" = s."'' @ column_name d @ ''"'')
                                      [ColumnDefinition ''email'' ''x'' None])
                     @ '' FROM "tmp_'' @ ''users'' @ ''" s WHERE t."'' @ ''id'' @ ''" = s."'' @ ''id'' @ ''";'')]
         \<and> (\<forall>e \<in> set loads. \<exists>d. e = CopyFrom (''tmp_'' @ ''users'') d))\<close>
  (is "?h \<and> ?c")
proof -
  have h: ?h by code_simp
  have eq: "build_and_then_import_data example_env
             \<lparr>cursor_rows = [[(''id'', PInt 1), (''email'', PStr ''a@b.c'')]], log = []\<rparr>
             ''users'' ''id'' [ColumnDefinition ''email'' ''x'' None] [] None 1 2
           = Inr (projr (build_and_then_import_data example_env
             \<lparr>cursor_rows = [[(''id'', PInt 1), (''email'', PStr ''a@b.c'')]], log = []\<rparr>
             ''users'' ''id'' [ColumnDefinition ''email'' ''x'' None] [] None 1 2))"
    by (rule sum.collapse(2) [OF h, symmetric])
  have c: ?c by (rule merge_back_statements [THEN conjunct2, THEN spec, THEN mp, OF eq])
  show ?thesis by (rule conjI [OF h c])
qed

section \<open>Properties of the chunked reader\<close>

lemma fetch_loop_enough:
  assumes "0 < chunk_size" and "length (cursor_rows c) \<le> batches * chunk_size"
  shows "fetch_loop E columns excludes temp_table chunk_size batches c =
         fetch_until_empty E columns excludes temp_table chunk_size c"
  using assms(2)
proof (induction batches arbitrary: c)
  case 0
  then have "cursor_rows c = []" by simp
  then have "c\<lparr>cursor_rows := []\<rparr> = c" by (cases c) simp
  with \<open>cursor_rows c = []\<close> show ?case
    by (simp add: fetch_until_empty.simps [of _ _ _ _ _ c] fetchmany_def)
next
  case (Suc n)
  let ?records = "take chunk_size (cursor_rows c)"
  let ?c1 = "c\<lparr>cursor_rows := drop chunk_size (cursor_rows c)\<rparr>"
  have step: "fetch_loop E columns excludes temp_table chunk_size n c2 =
              fetch_until_empty E columns excludes temp_table chunk_size c2"
    if "import_data E ?c1 temp_table data = Inr c2" for data c2
  proof -
    from that have "cursor_rows c2 = drop chunk_size (cursor_rows c)"
      by (auto simp: import_data_def copy_from_def Let_def split: option.splits if_splits)
    with Suc.prems have "length (cursor_rows c2) \<le> n * chunk_size" by simp
    then show ?thesis by (rule Suc.IH)
  qed
  show ?case
    by (subst fetch_until_empty.simps)
      (auto simp: fetchmany_def step split: sum.splits)
qed

lemma fetch_loop_reads_at_most:
  assumes "fetch_loop E columns excludes temp_table chunk_size batches c = Inr c'"
  shows "length (cursor_rows c) \<le> length (cursor_rows c') + batches * chunk_size"
  using assms
proof (induction batches arbitrary: c)
  case 0
  then show ?case by simp
next
  case (Suc n)
  let ?c1 = "c\<lparr>cursor_rows := drop chunk_size (cursor_rows c)\<rparr>"
  show ?case
  proof (cases "take chunk_size (cursor_rows c) = []")
    case True
    with Suc.prems have "c' = ?c1" by (simp add: fetchmany_def)
    then show ?thesis by simp
  next
    case False
    with Suc.prems obtain data c2 where
      imp: "import_data E ?c1 temp_table data = Inr c2"
      and rest: "fetch_loop E columns excludes temp_table chunk_size n c2 = Inr c'"
      by (auto simp: fetchmany_def split: sum.splits)
    from imp have "cursor_rows c2 = drop chunk_size (cursor_rows c)"
      by (auto simp: import_data_def copy_from_def Let_def split: option.splits if_splits)
    with Suc.IH [OF rest] show ?thesis by simp
  qed
qed

lemma batches_of_covers:
  assumes "0 < chunk_size" and "int total_count < EXACT_LIMIT" and "int chunk_size < EXACT_LIMIT"
  shows "batches_of E total_count chunk_size = Inr ((total_count + chunk_size - 1) div chunk_size)
       \<and> total_count \<le> (total_count + chunk_size - 1) div chunk_size * chunk_size"
proof -
  from assms(1) have "total_count + chunk_size - 1 <
      chunk_size + chunk_size * ((total_count + chunk_size - 1) div chunk_size)"
    by (rule dividend_less_times_div)
  with assms show ?thesis by (simp add: batches_of_def mult.commute)
qed

lemma parmap_map_staged:
  assumes "parmap_map E records columns excludes = Inr data"
  shows "filter_None data = staged_rows E columns excludes records
       \<and> (\<forall>r \<in> set records. \<not> isl (process_row E r columns excludes))"
  using assms
proof (induction records arbitrary: data)
  case Nil
  then show ?case by (simp add: filter_None_def staged_rows_def)
next
  case (Cons r rs)
  from Cons.prems obtain x xs where
    x: "process_row E r columns excludes = Inr x"
    and xs: "parmap_map E rs columns excludes = Inr xs"
    and data: "data = x # xs"
    by (auto split: sum.splits)
  from Cons.IH [OF xs] have
    "filter_None xs = staged_rows E columns excludes rs"
    and "\<forall>r \<in> set rs. \<not> isl (process_row E r columns excludes)"
    by simp_all
  with x data show ?case
    by (cases x) (simp_all add: filter_None_def staged_rows_def)
qed

lemma chunks_Nil: "chunks n [] = []"
  by (subst chunks.simps) simp

lemma chunks_step: "0 < n \<Longrightarrow> xs \<noteq> [] \<Longrightarrow> chunks n xs = take n xs # chunks n (drop n xs)"
  by (subst chunks.simps) simp

lemma chunks_partition:
  "0 < n \<Longrightarrow> concat (chunks n xs) = xs \<and> (\<forall>ch \<in> set (chunks n xs). ch \<noteq> [] \<and> length ch \<le> n)"
proof (induction n xs rule: chunks.induct)
  case (1 n xs)
  show ?case
  proof (cases "xs = []")
    case True
    then show ?thesis by (simp add: chunks_Nil)
  next
    case False
    from "1.prems" False have "\<not> (n = 0 \<or> xs = [])" by simp
    from "1.IH" [OF this "1.prems"] have
      a: "concat (chunks n (drop n xs)) = drop n xs"
      and b: "\<forall>ch \<in> set (chunks n (drop n xs)). ch \<noteq> [] \<and> length ch \<le> n"
      by (rule conjunct1, rule conjunct2)
    from "1.prems" False have step: "chunks n xs = take n xs # chunks n (drop n xs)"
      by (rule chunks_step)
    from False "1.prems" have "take n xs \<noteq> []" by simp
    with a b show ?thesis
      unfolding step by simp
  qed
qed

lemma fetch_loop_complete:
  assumes "0 < chunk_size"
    and "length (cursor_rows c) \<le> batches * chunk_size"
    and "fetch_loop E columns excludes temp_table chunk_size batches c = Inr c'"
  shows "cursor_rows c' = []
       \<and> log c' = log c @
           map (\<lambda>records. CopyFrom temp_table (data2csv E (staged_rows E columns excludes records)))
             (chunks chunk_size (cursor_rows c))
       \<and> (\<forall>r \<in> set (cursor_rows c). \<not> isl (process_row E r columns excludes))"
  using assms(2,3)
proof (induction batches arbitrary: c)
  case 0
  then have "cursor_rows c = []" and "c' = c" by simp_all
  then show ?case by (simp add: chunks_Nil)
next
  case (Suc n)
  let ?rows = "cursor_rows c"
  let ?c1 = "c\<lparr>cursor_rows := drop chunk_size ?rows\<rparr>"
  show ?case
  proof (cases "?rows = []")
    case True
    with Suc.prems(2) have "c' = ?c1" by (simp add: fetchmany_def)
    with True show ?thesis by (simp add: chunks_Nil)
  next
    case False
    with assms(1) have ne: "take chunk_size ?rows \<noteq> []" by simp
    with Suc.prems(2) obtain data c2 where
      pm: "parmap_map E (take chunk_size ?rows) columns excludes = Inr data"
      and imp: "import_data E ?c1 temp_table (filter_None data) = Inr c2"
      and rest: "fetch_loop E columns excludes temp_table chunk_size n c2 = Inr c'"
      by (auto simp: fetchmany_def split: sum.splits)
    from imp have rows2: "cursor_rows c2 = drop chunk_size ?rows"
      and log2: "log c2 = log c @ [CopyFrom temp_table (data2csv E (filter_None data))]"
      by (auto simp: import_data_def copy_from_def Let_def split: option.splits if_splits)
    from parmap_map_staged [OF pm] have
      staged: "filter_None data = staged_rows E columns excludes (take chunk_size ?rows)"
      and ok1: "\<forall>r \<in> set (take chunk_size ?rows). \<not> isl (process_row E r columns excludes)"
      by simp_all
    from Suc.prems(1) rows2 have "length (cursor_rows c2) \<le> n * chunk_size" by simp
    from Suc.IH [OF this rest] rows2 have
      finished: "cursor_rows c' = []"
      and log': "log c' = log c2 @
           map (\<lambda>records. CopyFrom temp_table (data2csv E (staged_rows E columns excludes records)))
             (chunks chunk_size (drop chunk_size ?rows))"
      and ok2: "\<forall>r \<in> set (drop chunk_size ?rows). \<not> isl (process_row E r columns excludes)"
      by simp_all
    have parts: "chunks chunk_size ?rows = take chunk_size ?rows # chunks chunk_size (drop chunk_size ?rows)"
      using assms(1) False by (rule chunks_step)
    have "set ?rows = set (take chunk_size ?rows) \<union> set (drop chunk_size ?rows)"
      by (metis append_take_drop_id set_append)
    with ok1 ok2 have ok: "\<forall>r \<in> set ?rows. \<not> isl (process_row E r columns excludes)"
      by blast
    from finished log' log2 staged parts ok show ?thesis by simp
  qed
qed

text \<open>
  Claim C1, as amended. A fetch delivers at most \<open>chunk_size\<close> rows, and the loop makes at
  most as many fetches as the code computes batches from the row count, so it reads at
  most that many chunks of rows. When the chunk size is positive, the row count and the
  chunk size are below \<open>2^53\<close> and the row count is at least the number of rows the cursor
  delivers, the table run is the run that fetches until a batch comes back empty, and if
  it ends normally the cursor is read to its end, every row has been processed without an
  error, and the staging table has received one bulk load for each successive chunk of
  the rows, holding the encoded rows that \<open>process_row\<close> returned for the chunk (the
  excluded rows are not among them).
\<close>

theorem total_count_bounds_reading:
  "(\<forall>batches c'. batches_of E total_count chunk_size = Inr batches
        \<and> fetch_loop E columns excludes temp_table chunk_size batches c = Inr c' \<longrightarrow>
      length (cursor_rows c) \<le> length (cursor_rows c') + batches * chunk_size)
   \<and> length (fst (fetchmany chunk_size c)) \<le> chunk_size
   \<and> (0 < chunk_size \<and> int chunk_size < EXACT_LIMIT \<and> int total_count < EXACT_LIMIT
        \<and> length (cursor_rows c) \<le> total_count \<longrightarrow>
        build_and_then_import_data E c table primary_key columns excludes search total_count chunk_size =
        build_until_empty E c table primary_key columns excludes search chunk_size
      \<and> concat (chunks chunk_size (cursor_rows c)) = cursor_rows c
      \<and> (\<forall>c'. build_and_then_import_data E c table primary_key columns excludes search total_count chunk_size
                = Inr c' \<longrightarrow>
            cursor_rows c' = []
          \<and> (\<forall>r \<in> set (cursor_rows c). \<not> isl (process_row E r columns excludes))
          \<and> (\<exists>c3. c' = apply_anonymized_data c3 (''tmp_'' @ table) table primary_key columns
                \<and> log c3 =
                    log c @
                    [Execute (select_sql table primary_key columns search),
                     Execute (ctas_query E columns table (''tmp_'' @ table) primary_key)] @
                    map (\<lambda>records. CopyFrom (''tmp_'' @ table)
                                     (data2csv E (staged_rows E columns excludes records)))
                      (chunks chunk_size (cursor_rows c)))))"
proof -
  have 1: "length (cursor_rows c) \<le> length (cursor_rows c') + batches * chunk_size"
    if "fetch_loop E columns excludes temp_table chunk_size batches c = Inr c'" for batches c'
    using that by (rule fetch_loop_reads_at_most)
  have 2: "length (fst (fetchmany chunk_size c)) \<le> chunk_size"
    by (simp add: fetchmany_def)
  let ?c2 = "create_temporary_table E (execute (select_sql table primary_key columns search) c)
               columns table (''tmp_'' @ table) primary_key"
  let ?batches = "(total_count + chunk_size - 1) div chunk_size"
  have rows2: "cursor_rows ?c2 = cursor_rows c"
    by (simp add: create_temporary_table_def execute_def)
  have log2: "log ?c2 = log c @ [Execute (select_sql table primary_key columns search),
                Execute (ctas_query E columns table (''tmp_'' @ table) primary_key)]"
    by (simp add: create_temporary_table_def execute_def)
  have 3: "build_and_then_import_data E c table primary_key columns excludes search total_count chunk_size =
        build_until_empty E c table primary_key columns excludes search chunk_size
      \<and> concat (chunks chunk_size (cursor_rows c)) = cursor_rows c
      \<and> (\<forall>c'. build_and_then_import_data E c table primary_key columns excludes search total_count chunk_size
                = Inr c' \<longrightarrow>
            cursor_rows c' = []
          \<and> (\<forall>r \<in> set (cursor_rows c). \<not> isl (process_row E r columns excludes))
          \<and> (\<exists>c3. c' = apply_anonymized_data c3 (''tmp_'' @ table) table primary_key columns
                \<and> log c3 =
                    log c @
                    [Execute (select_sql table primary_key columns search),
                     Execute (ctas_query E columns table (''tmp_'' @ table) primary_key)] @
                    map (\<lambda>records. CopyFrom (''tmp_'' @ table)
                                     (data2csv E (staged_rows E columns excludes records)))
                      (chunks chunk_size (cursor_rows c))))"
    (is "?same \<and> ?parts \<and> (\<forall>c'. ?run c' \<longrightarrow> ?read c' \<and> ?ok \<and> (\<exists>c3. ?merged c' c3 \<and> ?loads c3))")
    if hyp: "0 < chunk_size \<and> int chunk_size < EXACT_LIMIT \<and> int total_count < EXACT_LIMIT
        \<and> length (cursor_rows c) \<le> total_count"
  proof -
    from hyp have pos: "0 < chunk_size" and cb: "int chunk_size < EXACT_LIMIT"
      and tb: "int total_count < EXACT_LIMIT" and enough: "length (cursor_rows c) \<le> total_count"
      by simp_all
    note bo = batches_of_covers [OF pos tb cb, of E]
    from enough bo rows2 have len: "length (cursor_rows ?c2) \<le> ?batches * chunk_size" by simp
    from fetch_loop_enough [OF pos len]
    have "fetch_loop E columns excludes (''tmp_'' @ table) chunk_size ?batches ?c2 =
          fetch_until_empty E columns excludes (''tmp_'' @ table) chunk_size ?c2" .
    with bo have a: ?same
      by (simp add: build_and_then_import_data_def build_until_empty_def Let_def)
    from chunks_partition [OF pos] have b: ?parts
      by (rule conjunct1)
    have c: "?read c' \<and> ?ok \<and> (\<exists>c3. ?merged c' c3 \<and> ?loads c3)" if run: "?run c'" for c'
    proof -
      from run bo obtain c3 where
        loop: "fetch_loop E columns excludes (''tmp_'' @ table) chunk_size ?batches ?c2 = Inr c3"
        and c': "?merged c' c3"
        by (auto simp: build_and_then_import_data_def Let_def split: sum.splits)
      from fetch_loop_complete [OF pos len loop] rows2 log2 have
        r3: "cursor_rows c3 = []" and l3: "?loads c3" and ok: ?ok
        by simp_all
      from c' r3 have r: "?read c'"
        by (simp add: apply_anonymized_data_def execute_def Let_def)
      have "\<exists>c3. ?merged c' c3 \<and> ?loads c3"
        by (rule exI [of _ c3], rule conjI [OF c' l3])
      with r ok show ?thesis by (intro conjI)
    qed
    then have "\<forall>c'. ?run c' \<longrightarrow> ?read c' \<and> ?ok \<and> (\<exists>c3. ?merged c' c3 \<and> ?loads c3)"
      by (intro allI impI)
    with a b show ?thesis by (intro conjI)
  qed
  show ?thesis
  proof (intro conjI)
    show "\<forall>batches c'. batches_of E total_count chunk_size = Inr batches
        \<and> fetch_loop E columns excludes temp_table chunk_size batches c = Inr c' \<longrightarrow>
      length (cursor_rows c) \<le> length (cursor_rows c') + batches * chunk_size"
      using 1 by simp
    show "length (fst (fetchmany chunk_size c)) \<le> chunk_size"
      by (rule 2)
  qed (rule impI, rule 3)
qed

text \<open>
  Three rows in chunks of two with a row count of seven: the cursor is read to its end
  and staging receives two loads, of two rows and of one.
\<close>

theorem total_count_bounds_reading_witness:
  "(0 < (2::nat) \<and> int 2 < EXACT_LIMIT \<and> int 7 < EXACT_LIMIT
    \<and> length (cursor_rows \<lparr>cursor_rows = [[(''id'', PInt 1), (''email'', PStr ''a'')],
                                            [(''id'', PInt 2), (''email'', PStr ''b'')],
                                            [(''id'', PInt 3), (''email'', PStr ''c'')]], log = []\<rparr>) \<le> 7)
   \<and> build_and_then_import_data example_env
        \<lparr>cursor_rows = [[(''id'', PInt 1), (''email'', PStr ''a'')],
                        [(''id'', PInt 2), (''email'', PStr ''b'')],
                        [(''id'', PInt 3), (''email'', PStr ''c'')]], log = []\<rparr>
        ''users'' ''id'' [ColumnDefinition ''email'' ''x'' None] [] None 7 2
     = build_until_empty example_env
        \<lparr>cursor_rows = [[(''id'', PInt 1), (''email'', PStr ''a'')],
                        [(''id'', PInt 2), (''email'', PStr ''b'')],
                        [(''id'', PInt 3), (''email'', PStr ''c'')]], log = []\<rparr>
        ''users'' ''id'' [ColumnDefinition ''email'' ''x'' None] [] None 2
   \<and> map_sum id cursor_rows
       (build_and_then_import_data example_env
          \<lparr>cursor_rows = [[(''id'', PInt 1), (''email'', PStr ''a'')],
                          [(''id'', PInt 2), (''email'', PStr ''b'')],
                          [(''id'', PInt 3), (''email'', PStr ''c'')]], log = []\<rparr>
          ''users'' ''id'' [ColumnDefinition ''email'' ''x'' None] [] None 7 2) = Inr []
   \<and> map (\<lambda>records. data2csv example_env
                       (staged_rows example_env [ColumnDefinition ''email'' ''x'' None] [] records))
       (chunks 2 [[(''id'', PInt 1), (''email'', PStr ''a'')],
                  [(''id'', PInt 2), (''email'', PStr ''b'')],
                  [(''id'', PInt 3), (''email'', PStr ''c'')]])
     = [''1'' @ [CHR 0x1F] @ ''x'' @ [NEWLINE] @ ''2'' @ [CHR 0x1F] @ ''x'' @ [NEWLINE],
        ''3'' @ [CHR 0x1F] @ ''x'' @ [NEWLINE]]"
  (is "?h \<and> ?c \<and> ?v \<and> ?w")
proof -
  have h: ?h by (simp add: EXACT_LIMIT_def)
  have c: ?c
    by (rule total_count_bounds_reading
        [THEN conjunct2, THEN conjunct2, THEN mp, OF h, THEN conjunct1])
  have v: ?v by code_simp
  have w: ?w by code_simp
  show ?thesis by (rule conjI [OF h conjI [OF c conjI [OF v w]]])
qed

text \<open>
  Claim C1 as stated fails: with a row count of zero the loop makes no fetch and the row
  of the table stays unread, while a row count of one has it read and loaded.
\<close>

theorem total_count_truncates_counterexample:
  "map_sum id cursor_rows
     (build_and_then_import_data example_env
        \<lparr>cursor_rows = [[(''id'', PInt 1), (''email'', PStr ''a'')]], log = []\<rparr>
        ''users'' ''id'' [ColumnDefinition ''email'' ''x'' None] [] None 0 2)
     = Inr [[(''id'', PInt 1), (''email'', PStr ''a'')]]
   \<and> map_sum id cursor_rows
     (build_and_then_import_data example_env
        \<lparr>cursor_rows = [[(''id'', PInt 1), (''email'', PStr ''a'')]], log = []\<rparr>
        ''users'' ''id'' [ColumnDefinition ''email'' ''x'' None] [] None 1 2)
     = Inr []
   \<and> build_and_then_import_data example_env
        \<lparr>cursor_rows = [[(''id'', PInt 1), (''email'', PStr ''a'')]], log = []\<rparr>
        ''users'' ''id'' [ColumnDefinition ''email'' ''x'' None] [] None 0 2
     \<noteq> build_and_then_import_data example_env
        \<lparr>cursor_rows = [[(''id'', PInt 1), (''email'', PStr ''a'')]], log = []\<rparr>
        ''users'' ''id'' [ColumnDefinition ''email'' ''x'' None] [] None 1 2"
  by code_simp

section \<open>Where an invalid pattern is found\<close>

lemma match_patterns_append:
  "match_patterns E row column (ps @ qs) =
     (case match_patterns E row column ps of
        Inl e \<Rightarrow> Inl e
      | Inr True \<Rightarrow> Inr True
      | Inr False \<Rightarrow> match_patterns E row column qs)"
  by (induction ps) (auto split: sum.splits pyval.splits bool.splits)

lemma row_matches_excludes_append:
  "row_matches_excludes E row (ds @ es) =
     (case row_matches_excludes E row ds of
        Inl e \<Rightarrow> Inl e
      | Inr True \<Rightarrow> Inr True
      | Inr False \<Rightarrow> row_matches_excludes E row es)"
  by (induction ds) (auto split: sum.splits bool.splits)

lemma invalid_pattern_reached:
  assumes "re_compile E p = Inl e"
    and "row_matches_excludes E row pre = Inr False"
    and "match_patterns E row column ps = Inr False"
  shows "process_row E row columns (pre @ ExcludeDefinition column (ps @ p # qs) # post) = Inl e"
  using assms
  by (simp add: process_row_def row_matches_excludes_append match_patterns_append)

lemma fetch_loop_empty_cursor:
  "cursor_rows c = [] \<Longrightarrow> fetch_loop E columns excludes temp_table chunk_size batches c = Inr c"
  by (cases batches; cases c) (simp_all add: fetchmany_def)

text \<open>
  Claim C8, as amended. A pattern that does not compile is found when
  \<open>row_matches_excludes\<close> reaches it for a row, and not before: \<open>process_row\<close> raises the
  compilation error for every row on which the rules and patterns before it neither match
  nor raise; the table run raises it when its first fetched row is such a row; and a run
  whose cursor delivers no row ends normally (the last two for a row count and a chunk
  size below \<open>2^53\<close>, where the number of batches is the exact one).
\<close>

theorem invalid_pattern_raised_per_row:
  assumes "re_compile E p = Inl e"
    and "excludes = pre @ ExcludeDefinition column (ps @ p # qs) # post"
  shows "(row_matches_excludes E row pre = Inr False \<and> match_patterns E row column ps = Inr False \<longrightarrow>
            process_row E row columns excludes = Inl e)
       \<and> (row_matches_excludes E row pre = Inr False \<and> match_patterns E row column ps = Inr False
            \<and> cursor_rows c = row # rows \<and> 0 < chunk_size \<and> 0 < total_count
            \<and> int chunk_size < EXACT_LIMIT \<and> int total_count < EXACT_LIMIT \<longrightarrow>
            build_and_then_import_data E c table primary_key columns excludes search total_count chunk_size = Inl e)
       \<and> (cursor_rows c = [] \<and> 0 < chunk_size
            \<and> int chunk_size < EXACT_LIMIT \<and> int total_count < EXACT_LIMIT \<longrightarrow>
            \<not> isl (build_and_then_import_data E c table primary_key columns excludes search total_count chunk_size))"
proof -
  have 1: "process_row E row columns excludes = Inl e"
    if "row_matches_excludes E row pre = Inr False" "match_patterns E row column ps = Inr False"
    unfolding assms(2) using assms(1) that by (rule invalid_pattern_reached)
  have 2: "build_and_then_import_data E c table primary_key columns excludes search total_count chunk_size = Inl e"
    if reach: "row_matches_excludes E row pre = Inr False" "match_patterns E row column ps = Inr False"
      and rows: "cursor_rows c = row # rows" and pos: "0 < chunk_size" and cnt: "0 < total_count"
      and cb: "int chunk_size < EXACT_LIMIT" and tb: "int total_count < EXACT_LIMIT"
  proof -
    from pos cnt obtain k where k: "(total_count + chunk_size - 1) div chunk_size = Suc k"
      by (cases "(total_count + chunk_size - 1) div chunk_size") (auto simp: div_eq_0_iff)
    from pos obtain m where m: "chunk_size = Suc m" by (cases chunk_size) auto
    from 1 [OF reach] have "parmap_map E (row # take m rows) columns excludes = Inl e"
      by simp
    with rows pos cb tb k m show ?thesis
      by (simp add: build_and_then_import_data_def batches_of_def Let_def fetchmany_def
          create_temporary_table_def execute_def)
  qed
  have 3: "\<not> isl (build_and_then_import_data E c table primary_key columns excludes search total_count chunk_size)"
    if "cursor_rows c = []" "0 < chunk_size" "int chunk_size < EXACT_LIMIT" "int total_count < EXACT_LIMIT"
    using that
    by (simp add: build_and_then_import_data_def batches_of_def Let_def fetch_loop_empty_cursor
        create_temporary_table_def execute_def)
  from 1 2 3 show ?thesis by blast
qed

text \<open>An invalid pattern behind a rule on a null column and a pattern that does not match.\<close>

theorem invalid_pattern_raised_per_row_witness:
  "re_compile example_env ''('' = Inl (ReError ''('')
   \<and> [ExcludeDefinition ''name'' [''x''], ExcludeDefinition ''email'' [''bob'', ''('']]
       = [ExcludeDefinition ''name'' [''x'']] @ ExcludeDefinition ''email'' ([''bob''] @ ''('' # []) # []
   \<and> (row_matches_excludes example_env [(''id'', PInt 1), (''email'', PStr ''ann''), (''name'', PNone)]
         [ExcludeDefinition ''name'' [''x'']] = Inr False
      \<and> match_patterns example_env [(''id'', PInt 1), (''email'', PStr ''ann''), (''name'', PNone)]
         ''email'' [''bob''] = Inr False)
   \<and> process_row example_env [(''id'', PInt 1), (''email'', PStr ''ann''), (''name'', PNone)]
        [ColumnDefinition ''email'' ''x'' None]
        [ExcludeDefinition ''name'' [''x''], ExcludeDefinition ''email'' [''bob'', ''('']]
       = Inl (ReError ''('')"
  (is "?h1 \<and> ?h2 \<and> ?h3 \<and> ?c")
proof -
  have h1: ?h1 by code_simp
  have h2: ?h2 by simp
  have h3: ?h3 by code_simp
  have c: ?c
    by (rule invalid_pattern_raised_per_row [OF h1 h2, THEN conjunct1, THEN mp, OF h3])
  show ?thesis by (rule conjI [OF h1 conjI [OF h2 conjI [OF h3 c]]])
qed

text \<open>
  Claim C8 as stated fails: with an invalid pattern in its exclude rule, the run over an
  empty table ends normally, and the error is raised by the processing of a row.
\<close>

theorem invalid_pattern_not_rejected_counterexample:
  "re_compile example_env ''('' = Inl (ReError ''('')
   \<and> \<not> isl (build_and_then_import_data example_env \<lparr>cursor_rows = [], log = []\<rparr>
              ''users'' ''id'' [ColumnDefinition ''email'' ''x'' None]
              [ExcludeDefinition ''email'' [''('']] None 0 2)
   \<and> process_row example_env [(''id'', PInt 1), (''email'', PStr ''ann'')]
        [ColumnDefinition ''email'' ''x'' None] [ExcludeDefinition ''email'' [''('']]
       = Inl (ReError ''('')"
  by code_simp

end
